theory Spec2Isabelle
  imports Complex_Main "HOL-Library.Sublist" "HOL-Library.AList"
begin

section \<open>Python values and exceptions\<close>

text \<open>
  The dashboard is one Python module, \<^verbatim>\<open>app.py\<close>.  Its data are Python dicts, lists,
  strings, numbers and \<^verbatim>\<open>datetime\<close> objects; its failures are Python exceptions.
  Strings are lists of characters (code points 0 to 255), numbers that only get compared
  (\<^verbatim>\<open>time.time()\<close> readings) are reals, and integers are unbounded.
\<close>

datatype error = IndexError | KeyError | TypeError | AttributeError | ValueError
  | FileNotFoundError | JSONDecodeError

definition bind_err :: "error + 'a \<Rightarrow> ('a \<Rightarrow> error + 'b) \<Rightarrow> error + 'b" where
  "bind_err m f = (case m of Inl e \<Rightarrow> Inl e | Inr x \<Rightarrow> f x)"

text \<open>\<^verbatim>\<open>xs[i]\<close> for a non-negative literal index: IndexError out of range.\<close>

definition index :: "'a list \<Rightarrow> nat \<Rightarrow> error + 'a" where
  "index xs i = (if i < length xs then Inr (xs ! i) else Inl IndexError)"

text \<open>
  A naive \<^verbatim>\<open>datetime\<close>, as \<^verbatim>\<open>datetime.now()\<close> returns it.
\<close>

record datetime =
  year :: nat
  month :: nat
  day :: nat
  hour :: nat
  minute :: nat
  second :: nat
  microsecond :: nat

text \<open>
  The values a dict of this program or a JSON document can hold.  A dict is an association
  list in insertion order with distinct keys; \<^verbatim>\<open>d[k] = v\<close> is \<^const>\<open>AList.update\<close>
  (overwrite in place, or append a new key) and \<^verbatim>\<open>d.get(k)\<close> is \<^const>\<open>map_of\<close>.
\<close>

datatype pyval = PNone | PBool bool | PNum real | PStr string | PDatetime datetime
  | PList "pyval list" | PDict "(string \<times> pyval) list"

type_synonym pydict = "(string \<times> pyval) list"

text \<open>\<^verbatim>\<open>d[k]\<close> read: KeyError when the key is missing.\<close>

definition getitem :: "pydict \<Rightarrow> string \<Rightarrow> error + pyval" where
  "getitem d k = (case map_of d k of None \<Rightarrow> Inl KeyError | Some v \<Rightarrow> Inr v)"

section \<open>Session state\<close>

text \<open>
  Event dicts are shared mutable objects: the event list, the decision log and the alerts
  all hold references to the same dict.  The store \<open>heap\<close> maps an address (an index) to
  the dict it holds; a reference is an address.  Alerts and log entries are built once with
  a fixed set of keys, so they are records; only \<open>dismissed\<close> is ever reassigned.
\<close>

type_synonym addr = nat

record alert =
  a_id :: real
  a_type :: string
  a_class :: string
  auto :: string
  a_event :: addr
  created :: datetime
  urgency :: int
  dismissed :: bool

record orchestrator_entry =
  e_event :: addr
  answers :: "bool list"
  outcome :: string
  color :: string
  timestamp :: datetime

text \<open>
  A backing file, seen through \<^verbatim>\<open>open\<close> and \<^verbatim>\<open>json.load\<close>: it is missing, or its text is
  not a JSON document (empty and truncated files are such), or it is the JSON text of a
  value.  The JSON text layer itself belongs to Python's standard library.
\<close>

datatype backing_file = Missing | Malformed | JsonText pyval

record session =
  heap :: "pydict list"
  events :: "addr list"
  orchestrator_log :: "orchestrator_entry list"
  alerts :: "alert list"
  todos :: pyval
  events_file :: backing_file
  todos_file :: backing_file

text \<open>
  What the environment returns during one call of \<^verbatim>\<open>add_alert_dynamic\<close>:
  \<^verbatim>\<open>time.time()\<close>, \<^verbatim>\<open>random.random()\<close> and \<^verbatim>\<open>datetime.now()\<close>.  The id of an alert
  is the sum of the first two; nothing below depends on its value.
\<close>

record reading =
  time_time :: real
  random_random :: real
  now :: datetime

section \<open>Alert engine\<close>

record alert_def =
  def_class :: string
  def_urgency :: int

definition risk_to_alert :: "(string \<times> alert_def) list" where
  "risk_to_alert =
    [(''High'', \<lparr>def_class = ''alert-critical'', def_urgency = 60\<rparr>),
     (''Medium'', \<lparr>def_class = ''alert-asset'', def_urgency = 900\<rparr>),
     (''Low'', \<lparr>def_class = ''alert-rounding'', def_urgency = 14400\<rparr>),
     (''Training'', \<lparr>def_class = ''alert-training'', def_urgency = 86400\<rparr>),
     (''Compliance'', \<lparr>def_class = ''alert-compliance'', def_urgency = 3600\<rparr>)]"

text \<open>
  \<^verbatim>\<open>risk_to_alert.get(risk_level, risk_to_alert['Low'])\<close>: the default is evaluated first
  (a KeyError were \<^verbatim>\<open>'Low'\<close> no key), then the lookup falls back to it.
\<close>

definition lookup_alert_def :: "string \<Rightarrow> error + alert_def" where
  "lookup_alert_def risk_level =
    (case map_of risk_to_alert ''Low'' of
       None \<Rightarrow> Inl KeyError
     | Some low \<Rightarrow>
         Inr (case map_of risk_to_alert risk_level of None \<Rightarrow> low | Some d \<Rightarrow> d))"

text \<open>\<^verbatim>\<open>auto_action or ''\<close>: None and the empty string both give the empty string.\<close>

definition or_empty :: "string option \<Rightarrow> string" where
  "or_empty auto_action = (case auto_action of None \<Rightarrow> [] | Some a \<Rightarrow> a)"

definition add_alert_dynamic ::
  "reading \<Rightarrow> addr \<Rightarrow> string \<Rightarrow> string option \<Rightarrow> session \<Rightarrow> error + session" where
  "add_alert_dynamic rd event risk_level auto_action s =
    bind_err (lookup_alert_def risk_level) (\<lambda>alert_def.
      Inr (s\<lparr>alerts :=
        \<lparr>a_id = time_time rd + random_random rd,
         a_type = risk_level,
         a_class = def_class alert_def,
         auto = or_empty auto_action,
         a_event = event,
         created = now rd,
         urgency = def_urgency alert_def,
         dismissed = False\<rparr> # alerts s\<rparr>))"

section \<open>Orchestrator\<close>

text \<open>
  The three branches of \<^verbatim>\<open>process_orchestrator_decision\<close>.  \<^verbatim>\<open>answers[i]\<close> is read only
  where the Python reads it: \<^verbatim>\<open>answers[1] or answers[2]\<close> reads the third answer only when
  the second is false, and the conditional expression reads it again.
\<close>

definition classify :: "bool list \<Rightarrow> error + (string \<times> string \<times> string)" where
  "classify ans =
    bind_err (index ans 0) (\<lambda>a0.
      if a0 then Inr (''Escalate'', ''#ff4d4f'', ''Critical Safety'')
      else bind_err (index ans 1) (\<lambda>a1.
        bind_err (if a1 then Inr True else index ans 2) (\<lambda>c.
          if c then
            bind_err (index ans 2) (\<lambda>a2.
              Inr (''Schedule Task'', ''#faad14'',
                   if a2 then ''Asset Failure Risk'' else ''Compliance Drift''))
          else Inr (''Auto-Resolve'', ''#52c41a'', ''Rounding''))))"

text \<open>The three effects, in the order of the source.\<close>

definition log_insert :: "orchestrator_entry \<Rightarrow> session \<Rightarrow> session" where
  "log_insert entry s = s\<lparr>orchestrator_log := entry # orchestrator_log s\<rparr>"

definition set_status :: "addr \<Rightarrow> string \<Rightarrow> session \<Rightarrow> session" where
  "set_status event oc s =
    s\<lparr>heap := (heap s)[event := AList.update ''status'' (PStr oc) (heap s ! event)]\<rparr>"

definition process_orchestrator_decision ::
  "datetime \<Rightarrow> reading \<Rightarrow> addr \<Rightarrow> bool list \<Rightarrow> session
    \<Rightarrow> error + ((string \<times> string) \<times> session)" where
  "process_orchestrator_decision ts rd event ans s =
    bind_err (classify ans) (\<lambda>(oc, col, alert_type).
      let entry = \<lparr>e_event = event, answers = ans, outcome = oc, color = col,
                     timestamp = ts\<rparr>;
          s1 = log_insert entry s;
          s2 = set_status event oc s1
      in bind_err (add_alert_dynamic rd event alert_type None s2) (\<lambda>s3.
           Inr ((oc, col), s3)))"

text \<open>What \<^verbatim>\<open>entry['event']\<close> evaluates to in a session: the dict behind the reference.\<close>

definition entry_event :: "session \<Rightarrow> orchestrator_entry \<Rightarrow> pydict" where
  "entry_event s entry = heap s ! e_event entry"

section \<open>Urgency formatting\<close>

definition digit_char :: "nat \<Rightarrow> char" where
  "digit_char d = ''0123456789'' ! d"

fun str_nat :: "nat \<Rightarrow> string" where
  "str_nat n = (if n < 10 then [digit_char n] else str_nat (n div 10) @ [digit_char (n mod 10)])"

declare str_nat.simps [simp del]

text \<open>The decimal text an f-string gives a Python int.\<close>

definition str_int :: "int \<Rightarrow> string" where
  "str_int i = (if i < 0 then CHR ''-'' # str_nat (nat (- i)) else str_nat (nat i))"

definition format_urgency :: "alert \<Rightarrow> string" where
  "format_urgency al =
    (if urgency al < 3600 then str_int (urgency al div 60) @ ''m''
     else if urgency al < 86400 then str_int (urgency al div 3600) @ ''h''
     else str_int (urgency al div 86400) @ ''d'')"

section \<open>Python string methods\<close>

text \<open>\<^verbatim>\<open>sub in s\<close> on strings: \<open>sub\<close> occurs in \<open>s\<close> as a contiguous run.\<close>

fun str_in :: "'a list \<Rightarrow> 'a list \<Rightarrow> bool" where
  "str_in sub [] = (sub = [])"
| "str_in sub (c # s) = (prefix sub (c # s) \<or> str_in sub s)"

text \<open>\<^verbatim>\<open>s.split(sep)\<close> for a one-character separator: one more part than separators.\<close>

fun split_from :: "'a \<Rightarrow> 'a list \<Rightarrow> 'a list \<Rightarrow> 'a list list" where
  "split_from sep cur [] = [cur]"
| "split_from sep cur (c # s) =
    (if c = sep then cur # split_from sep [] s else split_from sep (cur @ [c]) s)"

definition str_split :: "'a \<Rightarrow> 'a list \<Rightarrow> 'a list list" where
  "str_split sep s = split_from sep [] s"

text \<open>
  \<^verbatim>\<open>s.replace(old, new)\<close>: every occurrence of \<open>old\<close>, found left to right without
  overlap, is replaced; an empty \<open>old\<close> matches before every character and at the end.
\<close>

function replace_from :: "'a list \<Rightarrow> 'a list \<Rightarrow> 'a list \<Rightarrow> 'a list" where
  "replace_from old new [] = []"
| "replace_from old new (c # s) =
    (if old \<noteq> [] \<and> prefix old (c # s)
     then new @ replace_from old new (drop (length old) (c # s))
     else c # replace_from old new s)"
  by pat_completeness auto
termination
  by (relation "measure (\<lambda>(old, new, s). length s)") auto

definition str_replace :: "'a list \<Rightarrow> 'a list \<Rightarrow> 'a list \<Rightarrow> 'a list" where
  "str_replace old new s =
    (if old = [] then new @ concat (map (\<lambda>c. c # new) s) else replace_from old new s)"

text \<open>
  The characters \<^verbatim>\<open>str.isspace\<close> accepts, and those \<^verbatim>\<open>str.splitlines\<close> breaks at, among
  the code points below 256.
\<close>

definition is_space :: "char \<Rightarrow> bool" where
  "is_space c = (of_char c \<in> {9, 10, 11, 12, 13, 28, 29, 30, 31, 32, 133, 160 :: nat})"

definition is_linebreak :: "char \<Rightarrow> bool" where
  "is_linebreak c = (of_char c \<in> {10, 11, 12, 13, 28, 29, 30, 133 :: nat})"

definition str_strip :: "string \<Rightarrow> string" where
  "str_strip s = rev (dropWhile is_space (rev (dropWhile is_space s)))"

text \<open>
  \<^verbatim>\<open>s.splitlines()\<close>: the lines without their terminators; carriage return followed by
  line feed is one terminator; a terminator at the very end opens no further line.
\<close>

fun splitlines_from :: "string \<Rightarrow> string \<Rightarrow> string list" where
  "splitlines_from cur [] = (if cur = [] then [] else [cur])"
| "splitlines_from cur [c] = (if is_linebreak c then [cur] else [cur @ [c]])"
| "splitlines_from cur (c # d # s) =
    (if c = CHR 0x0D \<and> d = CHR 0x0A then cur # splitlines_from [] s
     else if is_linebreak c then cur # splitlines_from [] (d # s)
     else splitlines_from (cur @ [c]) (d # s))"

definition splitlines :: "string \<Rightarrow> string list" where
  "splitlines s = splitlines_from [] s"

section \<open>JSON files\<close>

text \<open>
  \<^verbatim>\<open>json.dump\<close> writes every value but a \<^verbatim>\<open>datetime\<close>, on which it raises TypeError;
  the file, opened for writing, is then left with a broken text.
\<close>

fun json_ok :: "pyval \<Rightarrow> bool" where
  "json_ok (PDatetime d) = False"
| "json_ok (PList xs) = list_all json_ok xs"
| "json_ok (PDict kvs) = list_all (\<lambda>kv. json_ok (snd kv)) kvs"
| "json_ok v = True"

definition json_dump :: "pyval \<Rightarrow> (error + unit) \<times> backing_file" where
  "json_dump v = (if json_ok v then (Inr (), JsonText v) else (Inl TypeError, Malformed))"

definition save_todos :: "pyval \<Rightarrow> session \<Rightarrow> (error + unit) \<times> session" where
  "save_todos v s = (case json_dump v of (r, f) \<Rightarrow> (r, s\<lparr>todos_file := f\<rparr>))"

section \<open>Todos from the LLM response\<close>

text \<open>\<^verbatim>\<open>x in v\<close> for a string \<open>x\<close>: TypeError when \<open>v\<close> is no container.\<close>

definition str_in_val :: "string \<Rightarrow> pyval \<Rightarrow> error + bool" where
  "str_in_val x v =
    (case v of
       PStr t \<Rightarrow> Inr (str_in x t)
     | PList xs \<Rightarrow> Inr (PStr x \<in> set xs)
     | PDict kvs \<Rightarrow> Inr (x \<in> set (map fst kvs))
     | _ \<Rightarrow> Inl TypeError)"

text \<open>
  \<^verbatim>\<open>next((e for e in events if event_part in e['details']), None)\<close>: the first event of
  the store, in store order, whose details contain the text.
\<close>

fun matching_event :: "pydict list \<Rightarrow> addr list \<Rightarrow> string \<Rightarrow> error + addr option" where
  "matching_event h [] event_part = Inr None"
| "matching_event h (e # es) event_part =
    bind_err (getitem (h ! e) ''details'') (\<lambda>d.
      bind_err (str_in_val event_part d) (\<lambda>found.
        if found then Inr (Some e) else matching_event h es event_part))"

text \<open>The three fields of a qualifying line.\<close>

definition line_parts :: "string \<Rightarrow> error + (string \<times> string \<times> string)" where
  "line_parts line =
    (let parts = str_split (CHR ''|'') line in
     bind_err (index parts 0) (\<lambda>p0.
       bind_err (index parts 1) (\<lambda>p1.
         bind_err (index parts 2) (\<lambda>p2.
           Inr (str_strip (str_replace ''Event:'' [] p0),
                str_strip (str_replace ''Risk:'' [] p1),
                str_strip (str_replace ''Action:'' [] p2))))))"

definition todo_dict :: "string \<times> string \<times> string \<Rightarrow> pydict" where
  "todo_dict t =
    (case t of (event_part, risk_part, action_part) \<Rightarrow>
      [(''event'', PStr event_part), (''risk'', PStr risk_part),
       (''action'', PStr action_part), (''done'', PBool False)])"

text \<open>
  The loop over the lines of the response, with \<open>new_todos\<close> and the session as its
  state.  \<open>rd n\<close> is what the environment returns while the alert of the todo number
  \<open>n\<close> is built.
\<close>

fun todo_loop ::
  "(nat \<Rightarrow> reading) \<Rightarrow> string list \<Rightarrow> pydict list \<Rightarrow> session
    \<Rightarrow> error + (pydict list \<times> session)" where
  "todo_loop rd [] new_todos s = Inr (new_todos, s)"
| "todo_loop rd (line # rest) new_todos s =
    (if str_in ''| Risk:'' line \<and> str_in ''| Action:'' line then
       bind_err (line_parts line) (\<lambda>t.
         bind_err (matching_event (heap s) (events s) (fst t)) (\<lambda>m.
           bind_err
             (case m of
                None \<Rightarrow> Inr s
              | Some e \<Rightarrow>
                  if heap s ! e \<noteq> []
                  then add_alert_dynamic (rd (length new_todos)) e (fst (snd t))
                         (Some (snd (snd t))) s
                  else Inr s)
             (\<lambda>s'. todo_loop rd rest (new_todos @ [todo_dict t]) s')))
     else todo_loop rd rest new_todos s)"

text \<open>
  The values the prompt interpolates for one event: a KeyError when a key is missing.
\<close>

definition prompt_fields :: "pydict \<Rightarrow> error + (pyval \<times> pyval \<times> pyval)" where
  "prompt_fields e =
    bind_err (getitem e ''type'') (\<lambda>ty.
      bind_err (getitem e ''details'') (\<lambda>d.
        bind_err (getitem e ''status'') (\<lambda>st. Inr (ty, d, st))))"

fun map_err :: "('a \<Rightarrow> error + 'b) \<Rightarrow> 'a list \<Rightarrow> error + 'b list" where
  "map_err f [] = Inr []"
| "map_err f (x # xs) =
    bind_err (f x) (\<lambda>y. bind_err (map_err f xs) (\<lambda>ys. Inr (y # ys)))"

text \<open>
  The todo section of the Dashboard page.  \<open>api_key\<close> says whether a key is configured,
  \<open>ai_todo_text\<close> is what the LLM call returned for the prompt.  An exception leaves the
  page; the session it leaves behind is not modelled.
\<close>

definition dashboard_todos ::
  "bool \<Rightarrow> string option \<Rightarrow> (nat \<Rightarrow> reading) \<Rightarrow> session \<Rightarrow> error + session" where
  "dashboard_todos api_key ai_todo_text rd s =
    (if api_key \<and> events s \<noteq> [] then
       bind_err (map_err prompt_fields (map (\<lambda>e. heap s ! e) (take 10 (events s)))) (\<lambda>_.
         case ai_todo_text of
           None \<Rightarrow> Inr s
         | Some text \<Rightarrow>
             if text = [] then Inr s
             else
               bind_err (todo_loop rd (splitlines text) [] s) (\<lambda>(new_todos, s1).
                 if new_todos \<noteq> [] then
                   (let s2 = s1\<lparr>todos := PList (map PDict new_todos)\<rparr> in
                    case save_todos (PList (map PDict new_todos)) s2 of
                      (Inl e, s3) \<Rightarrow> Inl e
                    | (Inr u, s3) \<Rightarrow> Inr s3)
                 else Inr s1))
     else Inr s)"

text \<open>
  The events of the store as the entry form builds them: each dict has the keys
  \<^verbatim>\<open>type\<close>, \<^verbatim>\<open>details\<close> and \<^verbatim>\<open>status\<close>, and the details are a string.
\<close>

definition store_ok :: "session \<Rightarrow> bool" where
  "store_ok s =
    (\<forall>e \<in> set (events s). \<exists>ty d st.
       map_of (heap s ! e) ''type'' = Some ty
       \<and> map_of (heap s ! e) ''details'' = Some (PStr d)
       \<and> map_of (heap s ! e) ''status'' = Some st)"

section \<open>Timestamps as text\<close>

text \<open>
  The invariant of a \<^verbatim>\<open>datetime\<close> object: its constructor admits nothing else.
\<close>

definition is_leap :: "nat \<Rightarrow> bool" where
  "is_leap y = (y mod 4 = 0 \<and> (y mod 100 \<noteq> 0 \<or> y mod 400 = 0))"

definition days_in_month :: "nat \<Rightarrow> nat \<Rightarrow> nat" where
  "days_in_month y m =
    (if m = 2 then (if is_leap y then 29 else 28)
     else if m = 4 \<or> m = 6 \<or> m = 9 \<or> m = 11 then 30 else 31)"

definition valid_datetime :: "datetime \<Rightarrow> bool" where
  "valid_datetime d =
    (1 \<le> year d \<and> year d \<le> 9999 \<and> 1 \<le> month d \<and> month d \<le> 12
     \<and> 1 \<le> day d \<and> day d \<le> days_in_month (year d) (month d)
     \<and> hour d < 24 \<and> minute d < 60 \<and> second d < 60 \<and> microsecond d < 1000000)"

text \<open>\<^verbatim>\<open>'%0wd' % n\<close>: the decimal digits of \<open>n\<close>, filled with zeros up to the width.\<close>

definition zpad :: "nat \<Rightarrow> nat \<Rightarrow> string" where
  "zpad w n = replicate (w - length (str_nat n)) (CHR ''0'') @ str_nat n"

text \<open>
  \<^verbatim>\<open>datetime.isoformat()\<close> of a naive datetime: the microseconds are written only when
  they are not zero.
\<close>

definition isoformat :: "datetime \<Rightarrow> string" where
  "isoformat d =
    zpad 4 (year d) @ ''-'' @ zpad 2 (month d) @ ''-'' @ zpad 2 (day d) @ ''T''
    @ zpad 2 (hour d) @ '':'' @ zpad 2 (minute d) @ '':'' @ zpad 2 (second d)
    @ (if microsecond d = 0 then [] else ''.'' @ zpad 6 (microsecond d))"

definition digit_val :: "char \<Rightarrow> nat option" where
  "digit_val c =
    (let k = of_char c :: nat in if 48 \<le> k \<and> k \<le> 57 then Some (k - 48) else None)"

fun parse_nat_from :: "nat \<Rightarrow> string \<Rightarrow> nat option" where
  "parse_nat_from acc [] = Some acc"
| "parse_nat_from acc (c # cs) =
    (case digit_val c of None \<Rightarrow> None | Some k \<Rightarrow> parse_nat_from (10 * acc + k) cs)"

text \<open>
  The fields of a text of the shape \<^verbatim>\<open>YYYY-MM-DD?HH:MM:SS\<close> or
  \<^verbatim>\<open>YYYY-MM-DD?HH:MM:SS.ffffff\<close>, the separator \<^verbatim>\<open>?\<close> being any one character.
\<close>

definition iso_fields :: "string \<Rightarrow> datetime option" where
  "iso_fields t =
    (if (length t = 19 \<or> (length t = 26 \<and> t ! 19 = CHR ''.''))
        \<and> t ! 4 = CHR ''-'' \<and> t ! 7 = CHR ''-'' \<and> t ! 13 = CHR '':'' \<and> t ! 16 = CHR '':''
     then
       (case parse_nat_from 0 (take 4 t) of None \<Rightarrow> None | Some y \<Rightarrow>
        case parse_nat_from 0 (take 2 (drop 5 t)) of None \<Rightarrow> None | Some m \<Rightarrow>
        case parse_nat_from 0 (take 2 (drop 8 t)) of None \<Rightarrow> None | Some d \<Rightarrow>
        case parse_nat_from 0 (take 2 (drop 11 t)) of None \<Rightarrow> None | Some h \<Rightarrow>
        case parse_nat_from 0 (take 2 (drop 14 t)) of None \<Rightarrow> None | Some mi \<Rightarrow>
        case parse_nat_from 0 (take 2 (drop 17 t)) of None \<Rightarrow> None | Some sec \<Rightarrow>
        case parse_nat_from 0 (drop 20 t) of None \<Rightarrow> None | Some us \<Rightarrow>
          Some \<lparr>year = y, month = m, day = d, hour = h, minute = mi, second = sec,
                microsecond = us\<rparr>)
     else None)"

text \<open>
  \<^verbatim>\<open>datetime.fromisoformat\<close>.  A text of the two shapes above whose fields are in range
  gives its datetime.  Python reads further ISO 8601 shapes (a date alone, a UTC offset)
  and raises ValueError on the rest; what it does with any other text is the parameter
  \<open>other\<close>.
\<close>

definition fromisoformat :: "(string \<Rightarrow> error + datetime) \<Rightarrow> string \<Rightarrow> error + datetime" where
  "fromisoformat other t =
    (case iso_fields t of
       Some d \<Rightarrow> if valid_datetime d then Inr d else other t
     | None \<Rightarrow> other t)"

section \<open>Event persistence\<close>

text \<open>The body of the loop of \<^verbatim>\<open>save_events\<close>: the copy of one event, made serializable.\<close>

definition save_time :: "pydict \<Rightarrow> pydict" where
  "save_time e =
    (case map_of e ''time'' of
       Some (PDatetime d) \<Rightarrow> AList.update ''time'' (PStr (isoformat d)) e
     | _ \<Rightarrow> e)"

definition save_events :: "pydict list \<Rightarrow> (error + unit) \<times> backing_file" where
  "save_events evs = json_dump (PList (map (\<lambda>e. PDict (save_time e)) evs))"

text \<open>
  \<^verbatim>\<open>for e in events\<close>: a list gives its elements, a dict its keys, a string its
  characters; anything else is not iterable.
\<close>

definition py_iter :: "pyval \<Rightarrow> error + pyval list" where
  "py_iter v =
    (case v of
       PList xs \<Rightarrow> Inr xs
     | PDict kvs \<Rightarrow> Inr (map (\<lambda>kv. PStr (fst kv)) kvs)
     | PStr t \<Rightarrow> Inr (map (\<lambda>c. PStr [c]) t)
     | _ \<Rightarrow> Inl TypeError)"

text \<open>
  The body of the loop of \<^verbatim>\<open>load_events\<close>; only a dict has \<^verbatim>\<open>get\<close>.
\<close>

definition restore_time :: "(string \<Rightarrow> error + datetime) \<Rightarrow> pyval \<Rightarrow> error + pyval" where
  "restore_time other e =
    (case e of
       PDict d \<Rightarrow>
         (case map_of d ''time'' of
            Some (PStr t) \<Rightarrow>
              bind_err (fromisoformat other t) (\<lambda>dt.
                Inr (PDict (AList.update ''time'' (PDatetime dt) d)))
          | _ \<Rightarrow> Inr e)
     | _ \<Rightarrow> Inl AttributeError)"

text \<open>What the \<^verbatim>\<open>try\<close> block of \<^verbatim>\<open>load_events\<close> does, and the function with its handler.\<close>

definition load_events_try :: "(string \<Rightarrow> error + datetime) \<Rightarrow> backing_file \<Rightarrow> error + pyval" where
  "load_events_try other f =
    (case f of
       Missing \<Rightarrow> Inl FileNotFoundError
     | Malformed \<Rightarrow> Inl JSONDecodeError
     | JsonText v \<Rightarrow>
         bind_err (py_iter v) (\<lambda>xs.
           bind_err (map_err (restore_time other) xs) (\<lambda>ys.
             Inr (case v of PList _ \<Rightarrow> PList ys | _ \<Rightarrow> v))))"

definition load_events :: "(string \<Rightarrow> error + datetime) \<Rightarrow> backing_file \<Rightarrow> pyval" where
  "load_events other f = (case load_events_try other f of Inl e \<Rightarrow> PList [] | Inr v \<Rightarrow> v)"

definition load_todos_try :: "backing_file \<Rightarrow> error + pyval" where
  "load_todos_try f =
    (case f of
       Missing \<Rightarrow> Inl FileNotFoundError
     | Malformed \<Rightarrow> Inl JSONDecodeError
     | JsonText v \<Rightarrow> Inr v)"

definition load_todos :: "backing_file \<Rightarrow> pyval" where
  "load_todos f = (case load_todos_try f of Inl e \<Rightarrow> PList [] | Inr v \<Rightarrow> v)"

section \<open>Entry form\<close>

text \<open>
  The submission of the event form.  \<open>clock\<close> is the reading of \<^verbatim>\<open>time.time()\<close>,
  \<open>nw\<close> that of \<^verbatim>\<open>datetime.now()\<close>.  The new dict is a new object of the store.  An
  exception of \<^verbatim>\<open>save_events\<close> leaves the page with the insert already made.
\<close>

definition event_form ::
  "real \<Rightarrow> datetime \<Rightarrow> bool \<Rightarrow> string \<Rightarrow> string \<Rightarrow> session \<Rightarrow> (error + unit) \<times> session" where
  "event_form clock nw submitted event_type event_details s =
    (if submitted \<and> event_details \<noteq> [] then
       (let event = [(''id'', PNum clock), (''type'', PStr event_type),
                     (''details'', PStr event_details), (''time'', PDatetime nw),
                     (''status'', PStr ''Pending'')];
            s1 = s\<lparr>heap := heap s @ [event], events := length (heap s) # events s\<rparr>
        in case save_events (map (\<lambda>e. heap s1 ! e) (events s1)) of
             (r, f) \<Rightarrow> (r, s1\<lparr>events_file := f\<rparr>))
     else (Inr (), s))"

text \<open>The ids of the events of the store, in store order.\<close>

definition event_ids :: "session \<Rightarrow> pyval option list" where
  "event_ids s = map (\<lambda>e. map_of (heap s ! e) ''id'') (events s)"

text \<open>
  An event as the data model has it, beyond the keys of \<^const>\<open>store_ok\<close>: the keys are
  distinct, the time is a datetime, every other value is a JSON value.
\<close>

definition stored_event :: "pydict \<Rightarrow> bool" where
  "stored_event e =
    (distinct (map fst e)
     \<and> (\<exists>d. map_of e ''time'' = Some (PDatetime d) \<and> valid_datetime d)
     \<and> (\<forall>kv \<in> set e. fst kv \<noteq> ''time'' \<longrightarrow> json_ok (snd kv)))"

section \<open>Example inputs\<close>

text \<open>
  One event in the store, pending, and the readings of the environment during one run.
\<close>

definition example_time :: datetime where
  "example_time = \<lparr>year = 2025, month = 3, day = 14, hour = 9, minute = 26, second = 53,
     microsecond = 589793\<rparr>"

definition example_event :: pydict where
  "example_event =
    [(''id'', PNum 1741944413), (''type'', PStr ''Incident Flag''),
     (''details'', PStr ''Pump leak''), (''time'', PDatetime example_time),
     (''status'', PStr ''Pending'')]"

definition example_session :: session where
  "example_session =
    \<lparr>heap = [example_event], events = [0], orchestrator_log = [], alerts = [],
     todos = PList [], events_file = Missing, todos_file = Missing\<rparr>"

definition example_reading :: reading where
  "example_reading = \<lparr>time_time = 1741944500, random_random = 1 / 4, now = example_time\<rparr>"

definition example_entry :: orchestrator_entry where
  "example_entry =
    \<lparr>e_event = 0, answers = [True, False, False], outcome = ''Escalate'',
     color = ''#ff4d4f'', timestamp = example_time\<rparr>"

definition example_escalated :: session where
  "example_escalated =
    \<lparr>heap = [[(''id'', PNum 1741944413), (''type'', PStr ''Incident Flag''),
       (''details'', PStr ''Pump leak''), (''time'', PDatetime example_time),
       (''status'', PStr ''Escalate'')]],
     events = [0],
     orchestrator_log = [example_entry],
     alerts = [\<lparr>a_id = 1741944500 + 1 / 4, a_type = ''Critical Safety'',
       a_class = ''alert-rounding'', auto = [], a_event = 0, created = example_time,
       urgency = 14400, dismissed = False\<rparr>],
     todos = PList [], events_file = Missing, todos_file = Missing\<rparr>"

text \<open>
  The three-line response of the specification, and a line whose action names its label
  twice.
\<close>

definition example_response :: string where
  "example_response =
    ''Event: Pump leak | Risk: High | Action: Inspect valve'' @ [CHR 0x0A]
    @ ''not a todo line'' @ [CHR 0x0A]
    @ ''Event: Sensor drift | Risk: Low | Action: Recalibrate''"

definition example_line :: string where
  "example_line = ''Event: Valve stuck | Risk: High | Action: Inspect. Action: Replace''"

text \<open>
  The field of a segment as the specification words it: the label is stripped where it is
  a prefix of the trimmed segment, and the rest is trimmed.
\<close>

definition spec_field :: "string \<Rightarrow> string \<Rightarrow> string" where
  "spec_field label seg =
    (let t = str_strip seg
     in str_strip (if prefix label t then drop (length label) t else t))"

definition example_readings :: "nat \<Rightarrow> reading" where
  "example_readings n = example_reading"

section \<open>Orchestrator classification\<close>

lemma index_simps:
  "index (x # xs) 0 = Inr x"
  "index (x # xs) (Suc n) = index xs n"
  "index [] n = Inl IndexError"
  by (simp_all add: index_def)

lemma classify_triple:
  "classify [a, b, c] =
    Inr (if a then (''Escalate'', ''#ff4d4f'', ''Critical Safety'')
         else if c then (''Schedule Task'', ''#faad14'', ''Asset Failure Risk'')
         else if b then (''Schedule Task'', ''#faad14'', ''Compliance Drift'')
         else (''Auto-Resolve'', ''#52c41a'', ''Rounding''))"
  by (simp add: classify_def bind_err_def index_def numeral_2_eq_2)

lemma classify_triple_ex: "\<exists>oc col ty. classify [a, b, c] = Inr (oc, col, ty)"
  by (simp add: classify_triple)

lemma classify_types:
  "classify ans = Inr (oc, col, ty) \<Longrightarrow>
   ty \<in> {''Critical Safety'', ''Compliance Drift'', ''Asset Failure Risk'', ''Rounding''}"
  by (auto simp: classify_def bind_err_def index_def split: if_splits)

lemma lookup_alert_def_total:
  "lookup_alert_def k = Inr (case map_of risk_to_alert k of
      None \<Rightarrow> \<lparr>def_class = ''alert-rounding'', def_urgency = 14400\<rparr> | Some d \<Rightarrow> d)"
  by (simp add: lookup_alert_def_def risk_to_alert_def)

lemma derived_types_no_key:
  "map_of risk_to_alert ''Critical Safety'' = None"
  "map_of risk_to_alert ''Compliance Drift'' = None"
  "map_of risk_to_alert ''Asset Failure Risk'' = None"
  "map_of risk_to_alert ''Rounding'' = None"
  by (simp_all add: risk_to_alert_def)

text \<open>The session one successful run leaves behind, written out.\<close>

lemma process_result:
  "classify ans = Inr (oc, col, ty) \<Longrightarrow>
   process_orchestrator_decision ts rd event ans s =
    Inr ((oc, col),
      s\<lparr>orchestrator_log :=
          \<lparr>e_event = event, answers = ans, outcome = oc, color = col, timestamp = ts\<rparr>
            # orchestrator_log s,
        heap := (heap s)[event := AList.update ''status'' (PStr oc) (heap s ! event)],
        alerts :=
          \<lparr>a_id = time_time rd + random_random rd, a_type = ty,
           a_class = (case map_of risk_to_alert ty of None \<Rightarrow> ''alert-rounding''
                      | Some d \<Rightarrow> def_class d),
           auto = [], a_event = event, created = now rd,
           urgency = (case map_of risk_to_alert ty of None \<Rightarrow> 14400
                      | Some d \<Rightarrow> def_urgency d),
           dismissed = False\<rparr> # alerts s\<rparr>)"
  by (simp add: process_orchestrator_decision_def bind_err_def add_alert_dynamic_def
      lookup_alert_def_total log_insert_def set_status_def or_empty_def Let_def
      split: option.splits)

lemma process_returns_classification:
  "map_sum id fst (process_orchestrator_decision ts rd event ans s)
     = map_sum id (\<lambda>(oc, col, ty). (oc, col)) (classify ans)"
proof (cases "classify ans")
  case (Inl e)
  then show ?thesis
    by (simp add: process_orchestrator_decision_def bind_err_def)
next
  case (Inr t)
  then obtain oc col ty where "classify ans = Inr (oc, col, ty)"
    by (cases t) auto
  then show ?thesis
    by (simp add: process_result)
qed

lemma map_of_update_status:
  "map_of (AList.update k v d) k = Some v"
  by (simp add: update_conv')

text \<open>
  C1.  The classification is a total function of the three answers, first match wins:
  a true first answer gives Escalate and the alert type Critical Safety whatever the other
  two are; otherwise a true third answer gives Schedule Task with Asset Failure Risk (also
  when the second is true), a true second answer alone gives Schedule Task with Compliance
  Drift, and three false answers give Auto-Resolve with Rounding.  The four lines cover all
  eight triples.  The outcome and colour a run of the orchestrator returns are those of the
  classification, whatever the event, the session and the clock are.
\<close>

theorem classification_first_match:
  "classify [True, b, c] = Inr (''Escalate'', ''#ff4d4f'', ''Critical Safety'')
   \<and> classify [False, b, True] = Inr (''Schedule Task'', ''#faad14'', ''Asset Failure Risk'')
   \<and> classify [False, True, False] = Inr (''Schedule Task'', ''#faad14'', ''Compliance Drift'')
   \<and> classify [False, False, False] = Inr (''Auto-Resolve'', ''#52c41a'', ''Rounding'')
   \<and> map_sum id fst (process_orchestrator_decision ts rd event [a1, a2, a3] s)
        = map_sum id (\<lambda>(oc, col, ty). (oc, col)) (classify [a1, a2, a3])"
  by (simp add: classify_triple process_returns_classification)

section \<open>Effects of one orchestrator run\<close>

text \<open>
  C2.  For every event of the store (a valid reference) and every answer triple, one run
  puts exactly one new entry at the front of the decision log, puts exactly one new alert
  at the front of the alerts, and overwrites the status of the event's dict, in place, with
  the outcome; the event list is untouched.  A second run on the same event adds a second
  entry and a second alert: the operation is not idempotent.
\<close>

theorem orchestrator_run_effects:
  assumes "event < length (heap s)"
  shows "\<exists>oc col ty s'.
    classify [a, b, c] = Inr (oc, col, ty)
    \<and> process_orchestrator_decision ts rd event [a, b, c] s = Inr ((oc, col), s')
    \<and> orchestrator_log s' =
        \<lparr>e_event = event, answers = [a, b, c], outcome = oc, color = col, timestamp = ts\<rparr>
          # orchestrator_log s
    \<and> (\<exists>al. alerts s' = al # alerts s \<and> a_type al = ty \<and> a_event al = event
          \<and> \<not> dismissed al)
    \<and> map_of (heap s' ! event) ''status'' = Some (PStr oc)
    \<and> heap s' = (heap s)[event := AList.update ''status'' (PStr oc) (heap s ! event)]
    \<and> events s' = events s
    \<and> (\<exists>r s''. process_orchestrator_decision ts' rd' event [a, b, c] s' = Inr (r, s'')
          \<and> length (orchestrator_log s'') = length (orchestrator_log s) + 2
          \<and> length (alerts s'') = length (alerts s) + 2
          \<and> s'' \<noteq> s')"
proof -
  obtain oc col ty where c: "classify [a, b, c] = Inr (oc, col, ty)"
    using classify_triple_ex by blast
  define s' where "s' = snd (projr (process_orchestrator_decision ts rd event [a, b, c] s))"
  define s'' where "s'' = snd (projr (process_orchestrator_decision ts' rd' event [a, b, c] s'))"
  have r1: "process_orchestrator_decision ts rd event [a, b, c] s = Inr ((oc, col), s')"
    unfolding s'_def by (simp add: process_result [OF c])
  have r2: "process_orchestrator_decision ts' rd' event [a, b, c] s' = Inr ((oc, col), s'')"
    unfolding s''_def by (simp add: process_result [OF c])
  have l1: "orchestrator_log s' =
      \<lparr>e_event = event, answers = [a, b, c], outcome = oc, color = col, timestamp = ts\<rparr>
        # orchestrator_log s"
    unfolding s'_def by (simp add: process_result [OF c])
  have a1: "\<exists>al. alerts s' = al # alerts s \<and> a_type al = ty \<and> a_event al = event
      \<and> \<not> dismissed al"
    unfolding s'_def by (simp add: process_result [OF c])
  have h1: "heap s' = (heap s)[event := AList.update ''status'' (PStr oc) (heap s ! event)]"
    unfolding s'_def by (simp add: process_result [OF c])
  have st: "map_of (heap s' ! event) ''status'' = Some (PStr oc)"
    using assms by (simp add: h1 map_of_update_status)
  have e1: "events s' = events s"
    unfolding s'_def by (simp add: process_result [OF c])
  have l2: "length (orchestrator_log s'') = length (orchestrator_log s') + 1"
    unfolding s''_def by (simp add: process_result [OF c])
  have a2: "length (alerts s'') = length (alerts s') + 1"
    unfolding s''_def by (simp add: process_result [OF c])
  have a1': "length (alerts s') = length (alerts s) + 1"
    using a1 by auto
  have ne: "s'' \<noteq> s'"
    using l2 by auto
  have twice: "\<exists>r s''. process_orchestrator_decision ts' rd' event [a, b, c] s' = Inr (r, s'')
      \<and> length (orchestrator_log s'') = length (orchestrator_log s) + 2
      \<and> length (alerts s'') = length (alerts s) + 2 \<and> s'' \<noteq> s'"
    using r2 l1 l2 a2 a1' ne by auto
  show ?thesis
    using c r1 l1 a1 st h1 e1 twice by blast
qed

theorem orchestrator_run_effects_witness:
  "0 < length (heap example_session) \<and>
   (\<exists>oc col ty s'.
    classify [True, False, False] = Inr (oc, col, ty)
    \<and> process_orchestrator_decision example_time example_reading 0 [True, False, False]
          example_session = Inr ((oc, col), s')
    \<and> orchestrator_log s' =
        \<lparr>e_event = 0, answers = [True, False, False], outcome = oc, color = col,
           timestamp = example_time\<rparr> # orchestrator_log example_session
    \<and> (\<exists>al. alerts s' = al # alerts example_session \<and> a_type al = ty \<and> a_event al = 0
          \<and> \<not> dismissed al)
    \<and> map_of (heap s' ! 0) ''status'' = Some (PStr oc)
    \<and> heap s' = (heap example_session)[0 := AList.update ''status'' (PStr oc)
          (heap example_session ! 0)]
    \<and> events s' = events example_session
    \<and> (\<exists>r s''. process_orchestrator_decision example_time example_reading 0
            [True, False, False] s' = Inr (r, s'')
          \<and> length (orchestrator_log s'') = length (orchestrator_log example_session) + 2
          \<and> length (alerts s'') = length (alerts example_session) + 2
          \<and> s'' \<noteq> s'))"
proof -
  have h: "0 < length (heap example_session)"
    by (simp add: example_session_def)
  show ?thesis
    using h orchestrator_run_effects [OF h, of True False False example_time example_reading
        example_time example_reading]
    by blast
qed

section \<open>What a decision entry records\<close>

text \<open>
  The entry is built with \<^verbatim>\<open>'event': event\<close>: it holds the reference, and no copy of the
  dict is made.  In the example session the entry is computed for a pending event; once the
  run has set the status, the event read through the entry is no longer the event the entry
  was computed for: its status is Escalate.
\<close>

theorem entry_snapshot_counterexample:
  "process_orchestrator_decision example_time example_reading 0 [True, False, False]
      example_session = Inr ((''Escalate'', ''#ff4d4f''), example_escalated)
   \<and> orchestrator_log example_escalated = [example_entry]
   \<and> entry_event (log_insert example_entry example_session) example_entry = example_event
   \<and> map_of (entry_event (log_insert example_entry example_session) example_entry) ''status''
        = Some (PStr ''Pending'')
   \<and> entry_event example_escalated example_entry \<noteq> example_event
   \<and> map_of (entry_event example_escalated example_entry) ''status''
        = Some (PStr ''Escalate'')"
  by (simp add: process_result [OF classify_triple [of True False False, simplified]]
      example_session_def example_escalated_def example_entry_def example_event_def
      example_reading_def entry_event_def log_insert_def derived_types_no_key)

text \<open>
  C3, as the code has it.  Every decision entry holds a live reference to the event it was
  computed for, and the fields of the entry itself are never reassigned.  When the entry is
  put on the log the event read through it is the event as it was; after the run it is the
  same dict with the status overwritten by the outcome, every other key as before.
\<close>

theorem entry_holds_live_reference:
  assumes "event < length (heap s)"
  shows "\<exists>oc col entry s'.
    process_orchestrator_decision ts rd event [a, b, c] s = Inr ((oc, col), s')
    \<and> orchestrator_log s' = entry # orchestrator_log s
    \<and> e_event entry = event \<and> answers entry = [a, b, c] \<and> outcome entry = oc
    \<and> entry_event (log_insert entry s) entry = heap s ! event
    \<and> entry_event s' entry = AList.update ''status'' (PStr oc) (heap s ! event)
    \<and> entry_event s' entry = heap s' ! event
    \<and> map_of (entry_event s' entry) ''status'' = Some (PStr oc)
    \<and> (\<forall>k. k \<noteq> ''status'' \<longrightarrow> map_of (entry_event s' entry) k = map_of (heap s ! event) k)"
proof -
  obtain oc col ty where c: "classify [a, b, c] = Inr (oc, col, ty)"
    using classify_triple_ex by blast
  let ?entry = "\<lparr>e_event = event, answers = [a, b, c], outcome = oc, color = col,
      timestamp = ts\<rparr>"
  define s' where "s' = snd (projr (process_orchestrator_decision ts rd event [a, b, c] s))"
  have r: "process_orchestrator_decision ts rd event [a, b, c] s = Inr ((oc, col), s')"
    unfolding s'_def by (simp add: process_result [OF c])
  have l: "orchestrator_log s' = ?entry # orchestrator_log s"
    unfolding s'_def by (simp add: process_result [OF c])
  have h: "heap s' = (heap s)[event := AList.update ''status'' (PStr oc) (heap s ! event)]"
    unfolding s'_def by (simp add: process_result [OF c])
  have before: "entry_event (log_insert ?entry s) ?entry = heap s ! event"
    by (simp add: entry_event_def log_insert_def)
  have after: "entry_event s' ?entry = AList.update ''status'' (PStr oc) (heap s ! event)"
    using assms by (simp add: entry_event_def h)
  have live: "entry_event s' ?entry = heap s' ! event"
    by (simp add: entry_event_def)
  have st: "map_of (entry_event s' ?entry) ''status'' = Some (PStr oc)"
    by (simp add: after map_of_update_status)
  have others: "\<forall>k. k \<noteq> ''status'' \<longrightarrow>
      map_of (entry_event s' ?entry) k = map_of (heap s ! event) k"
    by (simp add: after update_conv')
  show ?thesis
    using r l before after live st others
    by (intro exI [of _ oc] exI [of _ col] exI [of _ ?entry] exI [of _ s']) simp
qed

theorem entry_holds_live_reference_witness:
  "0 < length (heap example_session) \<and>
   (\<exists>oc col entry s'.
    process_orchestrator_decision example_time example_reading 0 [True, False, False]
      example_session = Inr ((oc, col), s')
    \<and> orchestrator_log s' = entry # orchestrator_log example_session
    \<and> e_event entry = 0 \<and> answers entry = [True, False, False] \<and> outcome entry = oc
    \<and> entry_event (log_insert entry example_session) entry = heap example_session ! 0
    \<and> entry_event s' entry = AList.update ''status'' (PStr oc) (heap example_session ! 0)
    \<and> entry_event s' entry = heap s' ! 0
    \<and> map_of (entry_event s' entry) ''status'' = Some (PStr oc))"
proof -
  have h: "0 < length (heap example_session)"
    by (simp add: example_session_def)
  show ?thesis
    using h entry_holds_live_reference [OF h, of example_time example_reading True False False]
    by blast
qed

section \<open>Urgency and style of orchestrator alerts\<close>

text \<open>
  C4.  The keys of the risk table are High, Medium, Low, Training and Compliance; none of
  the four alert types the orchestrator derives is among them.  So for every event, every
  answer triple and every session the alert a run emits takes the fallback entry Low:
  urgency 14400 seconds and style class alert-rounding, a safety escalation included.
\<close>

theorem orchestrator_alert_low_fallback:
  "map fst risk_to_alert = [''High'', ''Medium'', ''Low'', ''Training'', ''Compliance'']
   \<and> map_of risk_to_alert ''Critical Safety'' = None
   \<and> map_of risk_to_alert ''Compliance Drift'' = None
   \<and> map_of risk_to_alert ''Asset Failure Risk'' = None
   \<and> map_of risk_to_alert ''Rounding'' = None
   \<and> map_of risk_to_alert ''Low''
        = Some \<lparr>def_class = ''alert-rounding'', def_urgency = 14400\<rparr>
   \<and> (\<exists>r al s'. process_orchestrator_decision ts rd event [a, b, c] s = Inr (r, s')
        \<and> alerts s' = al # alerts s
        \<and> urgency al = 14400 \<and> a_class al = ''alert-rounding'')"
proof -
  obtain oc col ty where c: "classify [a, b, c] = Inr (oc, col, ty)"
    using classify_triple_ex by blast
  have "map_of risk_to_alert ty = None"
    using classify_types [OF c] derived_types_no_key by auto
  then have "\<exists>r al s'. process_orchestrator_decision ts rd event [a, b, c] s = Inr (r, s')
        \<and> alerts s' = al # alerts s
        \<and> urgency al = 14400 \<and> a_class al = ''alert-rounding''"
    by (simp add: process_result [OF c])
  then show ?thesis
    by (simp add: derived_types_no_key) (simp add: risk_to_alert_def)
qed

section \<open>Urgency display\<close>

text \<open>
  C10.  An urgency below 3600 seconds is shown in minutes, one below 86400 in hours, any
  other in days, each by floor division: 59 gives 0m, 60 gives 1m, 900 gives 15m, 3600
  gives 1h, 86399 gives 23h and 86400 gives 1d.
\<close>

theorem format_urgency_rule:
  "(urgency al < 3600 \<longrightarrow> format_urgency al = str_int (urgency al div 60) @ ''m'')
   \<and> (3600 \<le> urgency al \<and> urgency al < 86400 \<longrightarrow>
        format_urgency al = str_int (urgency al div 3600) @ ''h'')
   \<and> (86400 \<le> urgency al \<longrightarrow> format_urgency al = str_int (urgency al div 86400) @ ''d'')
   \<and> format_urgency (al\<lparr>urgency := 59\<rparr>) = ''0m''
   \<and> format_urgency (al\<lparr>urgency := 60\<rparr>) = ''1m''
   \<and> format_urgency (al\<lparr>urgency := 900\<rparr>) = ''15m''
   \<and> format_urgency (al\<lparr>urgency := 3600\<rparr>) = ''1h''
   \<and> format_urgency (al\<lparr>urgency := 86399\<rparr>) = ''23h''
   \<and> format_urgency (al\<lparr>urgency := 86400\<rparr>) = ''1d''"
  by (simp add: format_urgency_def str_int_def str_nat.simps digit_char_def)

theorem format_urgency_rule_witness:
  "format_urgency \<lparr>a_id = 1741944500 + 1 / 4, a_type = ''Critical Safety'',
       a_class = ''alert-rounding'', auto = [], a_event = 0, created = example_time,
       urgency = 14400, dismissed = False\<rparr> = ''4h''"
  using format_urgency_rule [of "\<lparr>a_id = 1741944500 + 1 / 4, a_type = ''Critical Safety'',
       a_class = ''alert-rounding'', auto = [], a_event = 0, created = example_time,
       urgency = 14400, dismissed = False\<rparr>"]
  by (simp add: str_int_def str_nat.simps digit_char_def)

section \<open>Todos parsed from the response\<close>

lemma str_in_sublist: "str_in sub s = sublist sub s"
  by (induction s) (simp_all add: sublist_Cons_right)

lemma length_split_from:
  "length (split_from sep cur s) = Suc (length (filter (\<lambda>c. c = sep) s))"
  by (induction s arbitrary: cur) simp_all

lemma length_str_split:
  "length (str_split sep s) = Suc (length (filter (\<lambda>c. c = sep) s))"
  by (simp add: str_split_def length_split_from)

lemma filter_member_length:
  "c \<in> set ys \<Longrightarrow> 1 \<le> length (filter (\<lambda>x. x = c) ys)"
  by (induction ys) auto

lemma two_occurrences:
  assumes "i < j" "j < length xs" "xs ! i = c" "xs ! j = c"
  shows "2 \<le> length (filter (\<lambda>x. x = c) xs)"
proof -
  have i: "i < length xs"
    using assms by simp
  have "c \<in> set (take (Suc i) xs)"
    using assms(3) i by (simp add: take_Suc_conv_app_nth)
  then have a: "1 \<le> length (filter (\<lambda>x. x = c) (take (Suc i) xs))"
    by (rule filter_member_length)
  have "drop (Suc i) xs ! (j - Suc i) = c"
    using assms by simp
  moreover have "j - Suc i < length (drop (Suc i) xs)"
    using assms by simp
  ultimately have "c \<in> set (drop (Suc i) xs)"
    using nth_mem by blast
  then have b: "1 \<le> length (filter (\<lambda>x. x = c) (drop (Suc i) xs))"
    by (rule filter_member_length)
  have "filter (\<lambda>x. x = c) xs
      = filter (\<lambda>x. x = c) (take (Suc i) xs) @ filter (\<lambda>x. x = c) (drop (Suc i) xs)"
    by (simp flip: filter_append)
  then have "length (filter (\<lambda>x. x = c) xs)
      = length (filter (\<lambda>x. x = c) (take (Suc i) xs))
        + length (filter (\<lambda>x. x = c) (drop (Suc i) xs))"
    by simp
  then show ?thesis
    using a b by simp
qed

lemma two_pipes:
  assumes "sublist ''| Risk:'' line" "sublist ''| Action:'' line"
  shows "2 \<le> length (filter (\<lambda>c. c = CHR ''|'') line)"
proof -
  obtain p1 q1 where l1: "line = p1 @ ''| Risk:'' @ q1"
    using assms(1) by (auto simp: sublist_def)
  obtain p2 q2 where l2: "line = p2 @ ''| Action:'' @ q2"
    using assms(2) by (auto simp: sublist_def)
  have i1: "length p1 < length line" "line ! length p1 = CHR ''|''"
    "line ! (length p1 + 2) = CHR ''R''"
    by (simp_all add: l1 nth_append)
  have i2: "length p2 < length line" "line ! length p2 = CHR ''|''"
    "line ! (length p2 + 2) = CHR ''A''"
    by (simp_all add: l2 nth_append)
  have ne: "length p1 \<noteq> length p2"
    using i1(3) i2(3) by auto
  show ?thesis
  proof (cases "length p1 < length p2")
    case True
    then show ?thesis
      using two_occurrences [of "length p1" "length p2" line] i1 i2 by simp
  next
    case False
    then have "length p2 < length p1"
      using ne by simp
    then show ?thesis
      using two_occurrences [of "length p2" "length p1" line] i1 i2 by simp
  qed
qed

lemma qualifying_three_parts:
  assumes "str_in ''| Risk:'' line" "str_in ''| Action:'' line"
  shows "3 \<le> length (str_split (CHR ''|'') line)"
  using two_pipes assms by (simp add: str_in_sublist length_str_split)

lemma line_parts_qualifying:
  assumes "str_in ''| Risk:'' line" "str_in ''| Action:'' line"
  shows "line_parts line =
    Inr (str_strip (str_replace ''Event:'' [] (str_split (CHR ''|'') line ! 0)),
         str_strip (str_replace ''Risk:'' [] (str_split (CHR ''|'') line ! 1)),
         str_strip (str_replace ''Action:'' [] (str_split (CHR ''|'') line ! 2)))"
proof -
  have "3 \<le> length (str_split (CHR ''|'') line)"
    by (rule qualifying_three_parts [OF assms])
  then have "0 < length (str_split (CHR ''|'') line) \<and> 1 < length (str_split (CHR ''|'') line)
    \<and> 2 < length (str_split (CHR ''|'') line)"
    by linarith
  then show ?thesis
    by (simp add: line_parts_def index_def bind_err_def Let_def)
qed

lemma matching_event_total:
  assumes "\<forall>e \<in> set es. \<exists>d. map_of (h ! e) ''details'' = Some (PStr d)"
  shows "\<exists>m. matching_event h es event_part = Inr m"
  using assms
proof (induction es)
  case Nil
  then show ?case by simp
next
  case (Cons e es)
  then obtain d where "map_of (h ! e) ''details'' = Some (PStr d)"
    by auto
  then show ?case
    using Cons by (simp add: getitem_def bind_err_def str_in_val_def)
qed

lemma add_alert_dynamic_total:
  "\<exists>al. add_alert_dynamic rd e risk act s = Inr (s\<lparr>alerts := al # alerts s\<rparr>)"
  unfolding add_alert_dynamic_def lookup_alert_def_total bind_err_def
  by (simp only: sum.case) blast

lemma todo_loop_general:
  assumes "\<forall>e \<in> set (events s). \<exists>d. map_of (heap s ! e) ''details'' = Some (PStr d)"
    and "\<And>line. str_in ''| Risk:'' line \<and> str_in ''| Action:'' line \<Longrightarrow>
            line_parts line = Inr (f line)"
  shows "\<exists>als. todo_loop rd lines acc s =
    Inr (acc @ map (\<lambda>line. todo_dict (f line))
          (filter (\<lambda>line. str_in ''| Risk:'' line \<and> str_in ''| Action:'' line) lines),
         s\<lparr>alerts := als\<rparr>)"
  using assms(1)
proof (induction lines arbitrary: acc s)
  case Nil
  show ?case
    by (rule exI [of _ "alerts s"]) simp
next
  case (Cons line rest)
  show ?case
  proof (cases "str_in ''| Risk:'' line \<and> str_in ''| Action:'' line")
    case False
    then show ?thesis
      using Cons.IH [OF Cons.prems, of acc] by auto
  next
    case True
    define t where "t = f line"
    have lp: "line_parts line = Inr t"
      unfolding t_def using True assms(2) by blast
    obtain m where m: "matching_event (heap s) (events s) (fst t) = Inr m"
      using matching_event_total [OF Cons.prems] by blast
    define step where "step =
      (case m of None \<Rightarrow> Inr s
       | Some e \<Rightarrow>
           if heap s ! e \<noteq> []
           then add_alert_dynamic (rd (length acc)) e (fst (snd t)) (Some (snd (snd t))) s
           else Inr s)"
    have "\<exists>als1. step = Inr (s\<lparr>alerts := als1\<rparr>)"
    proof (cases m)
      case None
      show ?thesis
        unfolding step_def None by (rule exI [of _ "alerts s"]) simp
    next
      case (Some e)
      show ?thesis
      proof (cases "heap s ! e \<noteq> []")
        case True
        obtain al where "add_alert_dynamic (rd (length acc)) e (fst (snd t))
            (Some (snd (snd t))) s = Inr (s\<lparr>alerts := al # alerts s\<rparr>)"
          using add_alert_dynamic_total by blast
        then show ?thesis
          unfolding step_def Some using True by (intro exI [of _ "al # alerts s"]) simp
      next
        case False
        then show ?thesis
          unfolding step_def Some by (intro exI [of _ "alerts s"]) simp
      qed
    qed
    then obtain als1 where als1: "step = Inr (s\<lparr>alerts := als1\<rparr>)"
      by blast
    have ok1: "\<forall>e \<in> set (events (s\<lparr>alerts := als1\<rparr>)).
        \<exists>d. map_of (heap (s\<lparr>alerts := als1\<rparr>) ! e) ''details'' = Some (PStr d)"
      using Cons.prems by simp
    obtain als where rest: "todo_loop rd rest (acc @ [todo_dict t]) (s\<lparr>alerts := als1\<rparr>) =
      Inr ((acc @ [todo_dict t]) @ map (\<lambda>line. todo_dict (f line))
          (filter (\<lambda>line. str_in ''| Risk:'' line \<and> str_in ''| Action:'' line) rest),
         s\<lparr>alerts := als1\<rparr>\<lparr>alerts := als\<rparr>)"
      using Cons.IH [OF ok1] by blast
    have "todo_loop rd (line # rest) acc s =
        bind_err step (\<lambda>s'. todo_loop rd rest (acc @ [todo_dict t]) s')"
      using True lp m by (simp add: bind_err_def step_def)
    also have "\<dots> = Inr (acc @ map (\<lambda>line. todo_dict (f line))
          (filter (\<lambda>line. str_in ''| Risk:'' line \<and> str_in ''| Action:'' line) (line # rest)),
         s\<lparr>alerts := als\<rparr>)"
      using True rest by (simp add: als1 bind_err_def t_def)
    finally show ?thesis
      by blast
  qed
qed

lemma todo_loop_result:
  assumes "\<forall>e \<in> set (events s). \<exists>d. map_of (heap s ! e) ''details'' = Some (PStr d)"
  shows "\<exists>als. todo_loop rd lines acc s =
    Inr (acc @ map (\<lambda>line. todo_dict
            (str_strip (str_replace ''Event:'' [] (str_split (CHR ''|'') line ! 0)),
             str_strip (str_replace ''Risk:'' [] (str_split (CHR ''|'') line ! 1)),
             str_strip (str_replace ''Action:'' [] (str_split (CHR ''|'') line ! 2))))
          (filter (\<lambda>line. str_in ''| Risk:'' line \<and> str_in ''| Action:'' line) lines),
         s\<lparr>alerts := als\<rparr>)"
  by (rule todo_loop_general [OF assms]) (simp add: line_parts_qualifying)

lemma todo_loop_none:
  "filter (\<lambda>line. str_in ''| Risk:'' line \<and> str_in ''| Action:'' line) lines = [] \<Longrightarrow>
   todo_loop rd lines acc s = Inr (acc, s)"
  by (induction lines) (auto split: if_splits)

lemma splitlines_example:
  "splitlines example_response =
    [''Event: Pump leak | Risk: High | Action: Inspect valve'', ''not a todo line'',
     ''Event: Sensor drift | Risk: Low | Action: Recalibrate'']"
  by (simp add: example_response_def splitlines_def is_linebreak_def)

lemma str_split_examples:
  "str_split (CHR ''|'') ''Event: Pump leak | Risk: High | Action: Inspect valve''
     = [''Event: Pump leak '', '' Risk: High '', '' Action: Inspect valve'']"
  "str_split (CHR ''|'') ''Event: Sensor drift | Risk: Low | Action: Recalibrate''
     = [''Event: Sensor drift '', '' Risk: Low '', '' Action: Recalibrate'']"
  "str_split (CHR ''|'') example_line
     = [''Event: Valve stuck '', '' Risk: High '', '' Action: Inspect. Action: Replace'']"
  by (simp_all add: str_split_def example_line_def)

lemma str_in_examples:
  "str_in ''| Risk:'' ''Event: Pump leak | Risk: High | Action: Inspect valve''"
  "str_in ''| Action:'' ''Event: Pump leak | Risk: High | Action: Inspect valve''"
  "\<not> str_in ''| Risk:'' ''not a todo line''"
  "str_in ''| Risk:'' ''Event: Sensor drift | Risk: Low | Action: Recalibrate''"
  "str_in ''| Action:'' ''Event: Sensor drift | Risk: Low | Action: Recalibrate''"
  "str_in ''| Risk:'' example_line"
  "str_in ''| Action:'' example_line"
  by (simp_all add: example_line_def)

lemma field_examples:
  "str_strip (str_replace ''Event:'' [] ''Event: Pump leak '') = ''Pump leak''"
  "str_strip (str_replace ''Risk:'' [] '' Risk: High '') = ''High''"
  "str_strip (str_replace ''Action:'' [] '' Action: Inspect valve'') = ''Inspect valve''"
  "str_strip (str_replace ''Event:'' [] ''Event: Sensor drift '') = ''Sensor drift''"
  "str_strip (str_replace ''Risk:'' [] '' Risk: Low '') = ''Low''"
  "str_strip (str_replace ''Action:'' [] '' Action: Recalibrate'') = ''Recalibrate''"
  "str_strip (str_replace ''Event:'' [] ''Event: Valve stuck '') = ''Valve stuck''"
  "str_strip (str_replace ''Action:'' [] '' Action: Inspect. Action: Replace'')
     = ''Inspect.  Replace''"
  "spec_field ''Action:'' '' Action: Inspect. Action: Replace'' = ''Inspect. Action: Replace''"
  by (simp_all add: str_strip_def str_replace_def is_space_def spec_field_def)

lemma map_err_total:
  "\<forall>x \<in> set xs. \<exists>y. f x = Inr y \<Longrightarrow> \<exists>ys. map_err f xs = Inr ys"
proof (induction xs)
  case Nil
  then show ?case by simp
next
  case (Cons x xs)
  then obtain y ys where "f x = Inr y" "map_err f xs = Inr ys"
    by auto
  then show ?case
    by (simp add: bind_err_def)
qed

lemma prompt_fields_total:
  assumes "store_ok s"
  shows "\<exists>ys. map_err prompt_fields (map (\<lambda>e. heap s ! e) (take 10 (events s))) = Inr ys"
proof (rule map_err_total, rule ballI)
  fix x
  assume "x \<in> set (map (\<lambda>e. heap s ! e) (take 10 (events s)))"
  then obtain e where e: "e \<in> set (events s)" "x = heap s ! e"
    by (auto dest: in_set_takeD)
  then obtain ty d st where "map_of x ''type'' = Some ty"
    "map_of x ''details'' = Some (PStr d)" "map_of x ''status'' = Some st"
    using assms unfolding store_ok_def by blast
  then show "\<exists>y. prompt_fields x = Inr y"
    by (simp add: prompt_fields_def getitem_def bind_err_def)
qed

lemma store_ok_details:
  "store_ok s \<Longrightarrow> \<forall>e \<in> set (events s). \<exists>d. map_of (heap s ! e) ''details'' = Some (PStr d)"
  unfolding store_ok_def by blast

lemma json_ok_todos: "json_ok (PList (map (\<lambda>t. PDict (todo_dict t)) ts))"
  by (induction ts) (auto simp: todo_dict_def)

lemma dashboard_todos_result:
  assumes "store_ok s" "events s \<noteq> []" "response \<noteq> []"
    and "todo_loop rd (splitlines response) [] s = Inr (new_todos, s1)"
    and "\<exists>ts. new_todos = map todo_dict ts"
  shows "dashboard_todos True (Some response) rd s =
    Inr (if new_todos \<noteq> []
         then s1\<lparr>todos := PList (map PDict new_todos),
                 todos_file := JsonText (PList (map PDict new_todos))\<rparr>
         else s1)"
proof -
  obtain ys where ys: "map_err prompt_fields (map (\<lambda>e. heap s ! e) (take 10 (events s))) = Inr ys"
    using prompt_fields_total [OF assms(1)] by blast
  obtain ts where ts: "new_todos = map todo_dict ts"
    using assms(5) by blast
  have "json_ok (PList (map PDict new_todos))"
    using json_ok_todos [of ts] by (simp add: ts comp_def)
  then have dump: "json_dump (PList (map PDict new_todos))
      = (Inr (), JsonText (PList (map PDict new_todos)))"
    by (simp add: json_dump_def)
  show ?thesis
    using assms(2,3,4) ys dump
    by (simp add: dashboard_todos_def bind_err_def save_todos_def Let_def)
qed

text \<open>
  C5, as the code has it.  For a store whose events carry a string as details, the loop
  over the lines of a response never raises.  A line gives a todo exactly when it contains
  both \<^verbatim>\<open>| Risk:\<close> and \<^verbatim>\<open>| Action:\<close>; such a line has at least three parts between
  its bars, and the todo takes its event, risk and action from the first three parts, each
  with every occurrence of its label removed (not only a leading one) and then trimmed,
  with done false; the todos come in the order of the lines, other lines are skipped, and
  a response with no such line gives no todo.  The three-line example gives exactly the
  two todos Pump leak and Sensor drift, in that order.
\<close>

theorem todo_lines_parsed:
  assumes "\<forall>e \<in> set (events s). \<exists>d. map_of (heap s ! e) ''details'' = Some (PStr d)"
  shows "(\<exists>s'. todo_loop rd (splitlines response) [] s =
      Inr (map (\<lambda>line.
              [(''event'', PStr (str_strip (str_replace ''Event:'' []
                                   (str_split (CHR ''|'') line ! 0)))),
               (''risk'', PStr (str_strip (str_replace ''Risk:'' []
                                   (str_split (CHR ''|'') line ! 1)))),
               (''action'', PStr (str_strip (str_replace ''Action:'' []
                                   (str_split (CHR ''|'') line ! 2)))),
               (''done'', PBool False)])
            (filter (\<lambda>line. str_in ''| Risk:'' line \<and> str_in ''| Action:'' line)
               (splitlines response)),
           s'))
    \<and> (\<forall>line. str_in ''| Risk:'' line \<and> str_in ''| Action:'' line \<longrightarrow>
          3 \<le> length (str_split (CHR ''|'') line))
    \<and> (\<exists>s'. todo_loop rd (splitlines example_response) [] s =
          Inr ([[(''event'', PStr ''Pump leak''), (''risk'', PStr ''High''),
                 (''action'', PStr ''Inspect valve''), (''done'', PBool False)],
                [(''event'', PStr ''Sensor drift''), (''risk'', PStr ''Low''),
                 (''action'', PStr ''Recalibrate''), (''done'', PBool False)]],
               s'))"
proof -
  have general: "\<exists>s'. todo_loop rd (splitlines t) [] s =
      Inr (map (\<lambda>line.
              [(''event'', PStr (str_strip (str_replace ''Event:'' []
                                   (str_split (CHR ''|'') line ! 0)))),
               (''risk'', PStr (str_strip (str_replace ''Risk:'' []
                                   (str_split (CHR ''|'') line ! 1)))),
               (''action'', PStr (str_strip (str_replace ''Action:'' []
                                   (str_split (CHR ''|'') line ! 2)))),
               (''done'', PBool False)])
            (filter (\<lambda>line. str_in ''| Risk:'' line \<and> str_in ''| Action:'' line)
               (splitlines t)),
           s')" for t
    using todo_loop_result [OF assms, of rd "splitlines t" "[]"]
    by (auto simp: todo_dict_def)
  have parts: "\<forall>line. str_in ''| Risk:'' line \<and> str_in ''| Action:'' line \<longrightarrow>
          3 \<le> length (str_split (CHR ''|'') line)"
    using qualifying_three_parts by blast
  have example: "\<exists>s'. todo_loop rd (splitlines example_response) [] s =
          Inr ([[(''event'', PStr ''Pump leak''), (''risk'', PStr ''High''),
                 (''action'', PStr ''Inspect valve''), (''done'', PBool False)],
                [(''event'', PStr ''Sensor drift''), (''risk'', PStr ''Low''),
                 (''action'', PStr ''Recalibrate''), (''done'', PBool False)]],
               s')"
    using general [of example_response]
    by (simp add: splitlines_example str_in_examples str_split_examples field_examples)
  show ?thesis
    using general [of response] parts example by blast
qed

lemma example_details:
  "\<forall>e \<in> set (events example_session).
     \<exists>d. map_of (heap example_session ! e) ''details'' = Some (PStr d)"
  by (simp add: example_session_def example_event_def)

lemma example_store_ok: "store_ok example_session"
  by (simp add: store_ok_def example_session_def example_event_def)

text \<open>
  The label is removed wherever it occurs in its part, not only as a prefix: for the line
  with two \<^verbatim>\<open>Action:\<close> the code gives the action \<^verbatim>\<open>Inspect.  Replace\<close>, where stripping
  the prefix gives \<^verbatim>\<open>Inspect. Action: Replace\<close>.
\<close>

theorem todo_prefix_counterexample:
  "str_in ''| Risk:'' example_line \<and> str_in ''| Action:'' example_line
   \<and> todo_loop example_readings (splitlines example_line) [] example_session =
       Inr ([[(''event'', PStr ''Valve stuck''), (''risk'', PStr ''High''),
              (''action'', PStr ''Inspect.  Replace''), (''done'', PBool False)]],
            example_session)
   \<and> spec_field ''Action:'' (str_split (CHR ''|'') example_line ! 2)
       = ''Inspect. Action: Replace''
   \<and> ''Inspect.  Replace'' \<noteq> ''Inspect. Action: Replace''"
proof -
  have lines: "splitlines example_line = [example_line]"
    by (simp add: example_line_def splitlines_def is_linebreak_def)
  have parts: "line_parts example_line = Inr (''Valve stuck'', ''High'', ''Inspect.  Replace'')"
    by (simp add: line_parts_def str_split_examples index_def bind_err_def field_examples)
  have no_match: "matching_event (heap example_session) (events example_session)
      ''Valve stuck'' = Inr None"
    by (simp add: example_session_def example_event_def getitem_def bind_err_def
        str_in_val_def)
  have "todo_loop example_readings [example_line] [] example_session =
       Inr ([[(''event'', PStr ''Valve stuck''), (''risk'', PStr ''High''),
              (''action'', PStr ''Inspect.  Replace''), (''done'', PBool False)]],
            example_session)"
    by (simp add: str_in_examples parts no_match bind_err_def todo_dict_def)
  then show ?thesis
    by (simp add: lines str_in_examples str_split_examples field_examples)
qed

theorem todo_lines_parsed_witness:
  "\<exists>s'. todo_loop example_readings (splitlines example_response) [] example_session =
     Inr ([[(''event'', PStr ''Pump leak''), (''risk'', PStr ''High''),
            (''action'', PStr ''Inspect valve''), (''done'', PBool False)],
           [(''event'', PStr ''Sensor drift''), (''risk'', PStr ''Low''),
            (''action'', PStr ''Recalibrate''), (''done'', PBool False)]],
          s')"
  using todo_lines_parsed [OF example_details, of example_readings]
  by blast

section \<open>Replacing the todo collection\<close>

text \<open>
  C6.  With an API key, a store that is not empty and a response that is not empty: when
  at least one line of the response qualifies, the todo collection becomes exactly the
  todos parsed from it, whatever it held before, and the todos file holds that same
  collection; when no line qualifies, the session is left as it was, the todo collection
  and the todos file included.
\<close>

theorem todos_replaced_or_kept:
  assumes "store_ok s" "events s \<noteq> []" "response \<noteq> []"
  shows "\<exists>s'. dashboard_todos True (Some response) rd s = Inr s'
    \<and> heap s' = heap s \<and> events s' = events s
    \<and> (filter (\<lambda>line. str_in ''| Risk:'' line \<and> str_in ''| Action:'' line)
          (splitlines response) \<noteq> [] \<longrightarrow>
        todos s' = PList (map (\<lambda>line. PDict
              [(''event'', PStr (str_strip (str_replace ''Event:'' []
                                   (str_split (CHR ''|'') line ! 0)))),
               (''risk'', PStr (str_strip (str_replace ''Risk:'' []
                                   (str_split (CHR ''|'') line ! 1)))),
               (''action'', PStr (str_strip (str_replace ''Action:'' []
                                   (str_split (CHR ''|'') line ! 2)))),
               (''done'', PBool False)])
            (filter (\<lambda>line. str_in ''| Risk:'' line \<and> str_in ''| Action:'' line)
               (splitlines response)))
        \<and> todos_file s' = JsonText (todos s'))
    \<and> (filter (\<lambda>line. str_in ''| Risk:'' line \<and> str_in ''| Action:'' line)
          (splitlines response) = [] \<longrightarrow>
        s' = s)"
proof -
  define q where "q = (\<lambda>line. str_in ''| Risk:'' line \<and> str_in ''| Action:'' line)"
  define f where "f = (\<lambda>line.
            (str_strip (str_replace ''Event:'' [] (str_split (CHR ''|'') line ! 0)),
             str_strip (str_replace ''Risk:'' [] (str_split (CHR ''|'') line ! 1)),
             str_strip (str_replace ''Action:'' [] (str_split (CHR ''|'') line ! 2))))"
  define new_todos where "new_todos = map (\<lambda>line. todo_dict (f line)) (filter q (splitlines response))"
  obtain als where loop: "todo_loop rd (splitlines response) [] s =
      Inr (new_todos, s\<lparr>alerts := als\<rparr>)"
    using todo_loop_result [OF store_ok_details [OF assms(1)], of rd "splitlines response" "[]"]
    unfolding new_todos_def q_def f_def by auto
  have shape: "\<exists>ts. new_todos = map todo_dict ts"
    unfolding new_todos_def by (rule exI [of _ "map f (filter q (splitlines response))"]) simp
  have res: "dashboard_todos True (Some response) rd s =
    Inr (if new_todos \<noteq> []
         then s\<lparr>alerts := als\<rparr>\<lparr>todos := PList (map PDict new_todos),
                 todos_file := JsonText (PList (map PDict new_todos))\<rparr>
         else s\<lparr>alerts := als\<rparr>)"
    by (rule dashboard_todos_result [OF assms loop shape])
  have empty_iff: "new_todos = [] \<longleftrightarrow> filter q (splitlines response) = []"
    unfolding new_todos_def by simp
  have dicts: "map PDict new_todos = map (\<lambda>line. PDict
              [(''event'', PStr (str_strip (str_replace ''Event:'' []
                                   (str_split (CHR ''|'') line ! 0)))),
               (''risk'', PStr (str_strip (str_replace ''Risk:'' []
                                   (str_split (CHR ''|'') line ! 1)))),
               (''action'', PStr (str_strip (str_replace ''Action:'' []
                                   (str_split (CHR ''|'') line ! 2)))),
               (''done'', PBool False)])
            (filter q (splitlines response))"
    unfolding new_todos_def f_def by (simp add: todo_dict_def)
  show ?thesis
  proof (cases "filter q (splitlines response) = []")
    case True
    then have "todo_loop rd (splitlines response) [] s = Inr ([], s)"
      unfolding q_def by (rule todo_loop_none)
    then have "new_todos = [] \<and> s\<lparr>alerts := als\<rparr> = s"
      using loop by simp
    then have "dashboard_todos True (Some response) rd s = Inr s"
      using res by simp
    then show ?thesis
      using True unfolding q_def by simp
  next
    case False
    then have "new_todos \<noteq> []"
      using empty_iff by simp
    then have "dashboard_todos True (Some response) rd s =
      Inr (s\<lparr>alerts := als\<rparr>\<lparr>todos := PList (map PDict new_todos),
                 todos_file := JsonText (PList (map PDict new_todos))\<rparr>)"
      using res by simp
    then show ?thesis
      using False dicts unfolding q_def by simp
  qed
qed

theorem todos_replaced_or_kept_witness:
  "\<exists>s'. dashboard_todos True (Some example_response) example_readings example_session = Inr s'
    \<and> todos s' = PList
         [PDict [(''event'', PStr ''Pump leak''), (''risk'', PStr ''High''),
            (''action'', PStr ''Inspect valve''), (''done'', PBool False)],
          PDict [(''event'', PStr ''Sensor drift''), (''risk'', PStr ''Low''),
            (''action'', PStr ''Recalibrate''), (''done'', PBool False)]]
    \<and> todos_file s' = JsonText (todos s')"
proof -
  have e: "events example_session \<noteq> []"
    by (simp add: example_session_def)
  have r: "example_response \<noteq> []"
    by (simp add: example_response_def)
  show ?thesis
    using todos_replaced_or_kept [OF example_store_ok e r, of example_readings]
    by (simp add: splitlines_example str_in_examples str_split_examples field_examples) blast
qed

section \<open>Timestamps survive their text\<close>

lemma digit_cases: "k < 10 \<Longrightarrow> k \<in> {0, 1, 2, 3, 4, 5, 6, 7, 8, 9 :: nat}"
  by auto

lemma digit_val_digit_char: "k < 10 \<Longrightarrow> digit_val (digit_char k) = Some k"
  using digit_cases [of k] by (auto simp: digit_val_def digit_char_def)

lemma zpad_1: "n < 10 \<Longrightarrow> zpad 1 n = [digit_char n]"
  by (simp add: zpad_def str_nat.simps)

lemma zpad_Suc:
  assumes "1 \<le> w"
  shows "zpad (Suc w) n = zpad w (n div 10) @ [digit_char (n mod 10)]"
proof (cases "n < 10")
  case True
  have "replicate w (CHR ''0'') = replicate (w - 1) (CHR ''0'') @ [CHR ''0'']"
    using assms by (metis Suc_pred' less_eq_Suc_le replicate_append_same replicate_Suc One_nat_def)
  then show ?thesis
    using True by (simp add: zpad_def str_nat.simps [of n] str_nat.simps [of 0] digit_char_def)
next
  case False
  then show ?thesis
    by (simp add: zpad_def str_nat.simps [of n] Suc_diff_Suc)
qed

lemma parse_nat_from_snoc:
  "k < 10 \<Longrightarrow>
   parse_nat_from acc (xs @ [digit_char k]) =
     (case parse_nat_from acc xs of None \<Rightarrow> None | Some m \<Rightarrow> Some (10 * m + k))"
  by (induction xs arbitrary: acc) (simp_all add: digit_val_digit_char split: option.splits)

lemma parse_zpad:
  "1 \<le> w \<Longrightarrow> n < 10 ^ w \<Longrightarrow> parse_nat_from 0 (zpad w n) = Some n"
proof (induction w arbitrary: n rule: nat_induct_at_least)
  case base
  then show ?case
    using zpad_1 [of n] by (simp add: digit_val_digit_char)
next
  case (Suc w)
  have "n div 10 < 10 ^ w"
    using Suc.prems by (simp add: less_mult_imp_div_less mult.commute)
  then have "parse_nat_from 0 (zpad w (n div 10)) = Some (n div 10)"
    by (rule Suc.IH)
  then show ?case
    using Suc.hyps by (simp add: zpad_Suc parse_nat_from_snoc)
qed

lemma length_zpad:
  "1 \<le> w \<Longrightarrow> n < 10 ^ w \<Longrightarrow> length (zpad w n) = w"
proof (induction w arbitrary: n rule: nat_induct_at_least)
  case base
  then show ?case
    using zpad_1 [of n] by simp
next
  case (Suc w)
  have "n div 10 < 10 ^ w"
    using Suc.prems by (simp add: less_mult_imp_div_less mult.commute)
  then have "length (zpad w (n div 10)) = w"
    by (rule Suc.IH)
  then show ?case
    using Suc.hyps by (simp add: zpad_Suc)
qed

lemma list_of_length:
  "length xs = 2 \<Longrightarrow> \<exists>a b. xs = [a, b]"
  "length xs = 4 \<Longrightarrow> \<exists>a b c d. xs = [a, b, c, d]"
  "length xs = 6 \<Longrightarrow> \<exists>a b c d e f. xs = [a, b, c, d, e, f]"
  by (simp_all add: eval_nat_numeral length_Suc_conv) blast+

lemma two_digits:
  assumes "n < 100"
  obtains a b where "zpad 2 n = [a, b]" "parse_nat_from 0 [a, b] = Some n"
proof -
  have "length (zpad 2 n) = 2"
    using assms by (intro length_zpad) simp_all
  then obtain a b where "zpad 2 n = [a, b]"
    using list_of_length(1) by blast
  moreover have "parse_nat_from 0 (zpad 2 n) = Some n"
    using assms by (intro parse_zpad) simp_all
  ultimately show ?thesis
    using that by simp
qed

lemma four_digits:
  assumes "n < 10000"
  obtains a b c d where "zpad 4 n = [a, b, c, d]" "parse_nat_from 0 [a, b, c, d] = Some n"
proof -
  have "length (zpad 4 n) = 4"
    using assms by (intro length_zpad) simp_all
  then obtain a b c d where "zpad 4 n = [a, b, c, d]"
    using list_of_length(2) by blast
  moreover have "parse_nat_from 0 (zpad 4 n) = Some n"
    using assms by (intro parse_zpad) simp_all
  ultimately show ?thesis
    using that by simp
qed

lemma six_digits:
  assumes "n < 1000000"
  obtains a b c d e f where "zpad 6 n = [a, b, c, d, e, f]"
    "parse_nat_from 0 [a, b, c, d, e, f] = Some n"
proof -
  have "length (zpad 6 n) = 6"
    using assms by (intro length_zpad) simp_all
  then obtain a b c d e f where "zpad 6 n = [a, b, c, d, e, f]"
    using list_of_length(3) by blast
  moreover have "parse_nat_from 0 (zpad 6 n) = Some n"
    using assms by (intro parse_zpad) simp_all
  ultimately show ?thesis
    using that by simp
qed

lemma iso_fields_isoformat:
  assumes "valid_datetime d"
  shows "iso_fields (isoformat d) = Some d"
proof -
  have month_day: "month d < 100" "day d < 100"
    using assms by (auto simp: valid_datetime_def days_in_month_def split: if_splits)
  have rest: "year d < 10000" "hour d < 100" "minute d < 100" "second d < 100"
    "microsecond d < 1000000"
    using assms by (simp_all add: valid_datetime_def)
  obtain y1 y2 y3 y4 where y: "zpad 4 (year d) = [y1, y2, y3, y4]"
    "parse_nat_from 0 [y1, y2, y3, y4] = Some (year d)"
    using four_digits [OF rest(1)] by blast
  obtain m1 m2 where m: "zpad 2 (month d) = [m1, m2]"
    "parse_nat_from 0 [m1, m2] = Some (month d)"
    using two_digits [OF month_day(1)] by blast
  obtain d1 d2 where dd: "zpad 2 (day d) = [d1, d2]"
    "parse_nat_from 0 [d1, d2] = Some (day d)"
    using two_digits [OF month_day(2)] by blast
  obtain h1 h2 where h: "zpad 2 (hour d) = [h1, h2]"
    "parse_nat_from 0 [h1, h2] = Some (hour d)"
    using two_digits [OF rest(2)] by blast
  obtain i1 i2 where i: "zpad 2 (minute d) = [i1, i2]"
    "parse_nat_from 0 [i1, i2] = Some (minute d)"
    using two_digits [OF rest(3)] by blast
  obtain s1 s2 where s: "zpad 2 (second d) = [s1, s2]"
    "parse_nat_from 0 [s1, s2] = Some (second d)"
    using two_digits [OF rest(4)] by blast
  obtain u1 u2 u3 u4 u5 u6 where u: "zpad 6 (microsecond d) = [u1, u2, u3, u4, u5, u6]"
    "parse_nat_from 0 [u1, u2, u3, u4, u5, u6] = Some (microsecond d)"
    using six_digits [OF rest(5)] by blast
  show ?thesis
  proof (cases "microsecond d = 0")
    case True
    have "isoformat d = [y1, y2, y3, y4, CHR ''-'', m1, m2, CHR ''-'', d1, d2, CHR ''T'',
        h1, h2, CHR '':'', i1, i2, CHR '':'', s1, s2]"
      using True by (simp add: isoformat_def y(1) m(1) dd(1) h(1) i(1) s(1))
    then have "iso_fields (isoformat d) =
        Some \<lparr>year = year d, month = month d, day = day d, hour = hour d,
          minute = minute d, second = second d, microsecond = 0\<rparr>"
      unfolding iso_fields_def
      using y(2) m(2) dd(2) h(2) i(2) s(2) by simp
    then show ?thesis
      using True by simp
  next
    case False
    have "isoformat d = [y1, y2, y3, y4, CHR ''-'', m1, m2, CHR ''-'', d1, d2, CHR ''T'',
        h1, h2, CHR '':'', i1, i2, CHR '':'', s1, s2, CHR ''.'', u1, u2, u3, u4, u5, u6]"
      using False by (simp add: isoformat_def y(1) m(1) dd(1) h(1) i(1) s(1) u(1))
    then have "iso_fields (isoformat d) =
        Some \<lparr>year = year d, month = month d, day = day d, hour = hour d,
          minute = minute d, second = second d, microsecond = microsecond d\<rparr>"
      unfolding iso_fields_def
      using y(2) m(2) dd(2) h(2) i(2) s(2) u(2) by simp
    then show ?thesis
      by simp
  qed
qed

lemma fromisoformat_isoformat:
  "valid_datetime d \<Longrightarrow> fromisoformat other (isoformat d) = Inr d"
  by (simp add: fromisoformat_def iso_fields_isoformat)

section \<open>Saving and reloading the events\<close>

lemma update_preserves:
  assumes "distinct (map fst e)" "\<forall>kv \<in> set e. fst kv \<noteq> k \<longrightarrow> P (snd kv)" "P v"
  shows "\<forall>kv \<in> set (AList.update k v e). P (snd kv)"
  using assms
proof (induction e)
  case Nil
  then show ?case by simp
next
  case (Cons p e)
  show ?case
  proof (cases "fst p = k")
    case True
    have "k \<notin> fst ` set e"
      using Cons.prems(1) True by simp
    then have "\<forall>kv \<in> set e. fst kv \<noteq> k"
      by blast
    then show ?thesis
      using Cons.prems True by auto
  next
    case False
    then show ?thesis
      using Cons by auto
  qed
qed

lemma json_ok_save_time:
  assumes "stored_event e"
  shows "json_ok (PDict (save_time e))"
proof -
  obtain d where d: "map_of e ''time'' = Some (PDatetime d)"
    using assms by (auto simp: stored_event_def)
  have "\<forall>kv \<in> set (AList.update ''time'' (PStr (isoformat d)) e). json_ok (snd kv)"
    using assms by (intro update_preserves) (simp_all add: stored_event_def)
  then show ?thesis
    by (simp add: save_time_def d list_all_iff)
qed

lemma restore_save_time:
  assumes "stored_event e"
  shows "restore_time other (PDict (save_time e)) = Inr (PDict e)"
proof -
  obtain d where d: "map_of e ''time'' = Some (PDatetime d)" "valid_datetime d"
    using assms by (auto simp: stored_event_def)
  have "AList.update ''time'' (PDatetime d) e = e"
    using d(1) by (rule update_triv)
  then show ?thesis
    by (simp add: restore_time_def save_time_def d update_conv' bind_err_def
        fromisoformat_isoformat)
qed

lemma map_err_map:
  "\<forall>x \<in> set xs. f (g x) = Inr (h x) \<Longrightarrow> map_err f (map g xs) = Inr (map h xs)"
  by (induction xs) (simp_all add: bind_err_def)

lemma save_events_json:
  assumes "\<forall>e \<in> set evs. json_ok (PDict (save_time e))"
  shows "save_events evs = (Inr (), JsonText (PList (map (\<lambda>e. PDict (save_time e)) evs)))"
proof -
  have "json_ok (PList (map (\<lambda>e. PDict (save_time e)) evs))"
    using assms by (simp add: list_all_iff del: json_ok.simps(3))
  then show ?thesis
    by (simp add: save_events_def json_dump_def)
qed

lemma save_events_ok:
  assumes "\<forall>e \<in> set evs. stored_event e"
  shows "save_events evs = (Inr (), JsonText (PList (map (\<lambda>e. PDict (save_time e)) evs)))"
  using assms json_ok_save_time by (intro save_events_json) blast

lemma load_saved_events:
  assumes "\<forall>e \<in> set evs. stored_event e"
  shows "load_events other (JsonText (PList (map (\<lambda>e. PDict (save_time e)) evs)))
    = PList (map PDict evs)"
proof -
  have "map_err (restore_time other) (map (\<lambda>e. PDict (save_time e)) evs)
      = Inr (map PDict evs)"
    using assms by (intro map_err_map) (simp add: restore_save_time)
  then show ?thesis
    by (simp add: load_events_def load_events_try_def py_iter_def bind_err_def)
qed

text \<open>
  C8.  For every collection of events (distinct keys, a datetime as time, JSON values
  elsewhere), \<^verbatim>\<open>save_events\<close> succeeds, and \<^verbatim>\<open>load_events\<close> on the file it wrote gives
  the same events in the same order, each timestamp rebuilt from its ISO-8601 text to the
  datetime it was.  This holds whatever \<^verbatim>\<open>fromisoformat\<close> does with texts that
  \<^verbatim>\<open>isoformat\<close> does not produce.
\<close>

theorem events_round_trip:
  assumes "\<forall>e \<in> set evs. stored_event e"
  shows "\<exists>f. save_events evs = (Inr (), f) \<and> load_events other f = PList (map PDict evs)"
  using save_events_ok [OF assms] load_saved_events [OF assms] by simp

lemma example_time_valid: "valid_datetime example_time"
  by (simp add: valid_datetime_def example_time_def days_in_month_def)

lemma example_event_stored: "stored_event example_event"
  using example_time_valid by (simp add: stored_event_def example_event_def)

theorem events_round_trip_witness:
  "save_events [example_event] =
     (Inr (), JsonText (PList [PDict
        [(''id'', PNum 1741944413), (''type'', PStr ''Incident Flag''),
         (''details'', PStr ''Pump leak''), (''time'', PStr ''2025-03-14T09:26:53.589793''),
         (''status'', PStr ''Pending'')]]))
   \<and> load_events (\<lambda>t. Inl ValueError) (snd (save_events [example_event]))
       = PList [PDict example_event]"
proof -
  have "\<forall>e \<in> set [example_event]. stored_event e"
    using example_event_stored by simp
  then have "\<exists>f. save_events [example_event] = (Inr (), f)
      \<and> load_events (\<lambda>t. Inl ValueError) f = PList (map PDict [example_event])"
    by (rule events_round_trip)
  moreover have "save_events [example_event] =
     (Inr (), JsonText (PList [PDict
        [(''id'', PNum 1741944413), (''type'', PStr ''Incident Flag''),
         (''details'', PStr ''Pump leak''), (''time'', PStr ''2025-03-14T09:26:53.589793''),
         (''status'', PStr ''Pending'')]]))"
    by (simp add: save_events_def json_dump_def save_time_def example_event_def isoformat_def
        example_time_def zpad_def str_nat.simps digit_char_def)
  ultimately show ?thesis
    by auto
qed

section \<open>Loading fails open\<close>

text \<open>
  C9.  When the events file is missing, or its text is no JSON document (an empty or a
  truncated file), \<^verbatim>\<open>load_events\<close> returns the empty list; so it does whenever anything in
  its \<^verbatim>\<open>try\<close> block raises, and otherwise it returns what the block computed: no error
  leaves the function.  \<^verbatim>\<open>load_todos\<close> does the same with the todos file.
\<close>

theorem load_fails_open:
  "load_events other Missing = PList []
   \<and> load_events other Malformed = PList []
   \<and> load_todos Missing = PList []
   \<and> load_todos Malformed = PList []
   \<and> (load_events_try other f = Inl e \<longrightarrow> load_events other f = PList [])
   \<and> (load_todos_try f = Inl e \<longrightarrow> load_todos f = PList [])
   \<and> (load_events_try other f = Inr v \<longrightarrow> load_events other f = v)
   \<and> (load_todos_try f = Inr v \<longrightarrow> load_todos f = v)"
  by (simp add: load_events_def load_events_try_def load_todos_def load_todos_try_def)

theorem load_fails_open_witness:
  "load_events_try (\<lambda>t. Inl ValueError) (JsonText (PList [PNum 1])) = Inl AttributeError
   \<and> load_events (\<lambda>t. Inl ValueError) (JsonText (PList [PNum 1])) = PList []
   \<and> load_todos_try Malformed = Inl JSONDecodeError
   \<and> load_todos Malformed = PList []"
proof -
  have a: "load_events_try (\<lambda>t. Inl ValueError) (JsonText (PList [PNum 1])) = Inl AttributeError"
    by (simp add: load_events_try_def py_iter_def restore_time_def bind_err_def)
  have b: "load_todos_try Malformed = Inl JSONDecodeError"
    by (simp add: load_todos_try_def)
  show ?thesis
    using a b
      load_fails_open [of "\<lambda>t. Inl ValueError" "JsonText (PList [PNum 1])" AttributeError]
      load_fails_open [of "\<lambda>t. Inl ValueError" Malformed JSONDecodeError]
    by simp
qed

section \<open>Appending an event\<close>

lemma json_ok_new_event:
  "json_ok (PDict (save_time
     [(''id'', PNum clock), (''type'', PStr event_type), (''details'', PStr event_details),
      (''time'', PDatetime nw), (''status'', PStr ''Pending'')]))"
  by (simp add: save_time_def)

text \<open>
  C7, as the code has it.  A submission with details that are not empty builds a new event
  whose id is the reading of the clock, with the current timestamp and the status Pending,
  puts it at index 0 of the event list before the events already there, which are left as
  they were, and writes the whole collection to the events file.  The ids stay distinct
  when they were distinct and no stored event already has the reading of the clock as its
  id; the code itself does not check this.
\<close>

theorem event_form_appends:
  assumes "event_details \<noteq> []"
    and "\<forall>e \<in> set (events s). e < length (heap s) \<and> stored_event (heap s ! e)"
  shows "\<exists>s'. event_form clock nw True event_type event_details s = (Inr (), s')
    \<and> events s' = length (heap s) # events s
    \<and> heap s' ! (events s' ! 0) =
        [(''id'', PNum clock), (''type'', PStr event_type), (''details'', PStr event_details),
         (''time'', PDatetime nw), (''status'', PStr ''Pending'')]
    \<and> (\<forall>e \<in> set (events s). heap s' ! e = heap s ! e)
    \<and> events_file s' =
        JsonText (PList (map (\<lambda>e. PDict (save_time (heap s' ! e))) (events s')))
    \<and> (distinct (event_ids s) \<and> Some (PNum clock) \<notin> set (event_ids s) \<longrightarrow>
          distinct (event_ids s'))"
proof -
  define event where "event =
    [(''id'', PNum clock), (''type'', PStr event_type), (''details'', PStr event_details),
     (''time'', PDatetime nw), (''status'', PStr ''Pending'')]"
  define s1 where "s1 = s\<lparr>heap := heap s @ [event], events := length (heap s) # events s\<rparr>"
  have old: "\<forall>e \<in> set (events s). heap s1 ! e = heap s ! e"
    using assms(2) by (simp add: s1_def nth_append)
  have new: "heap s1 ! length (heap s) = event"
    by (simp add: s1_def)
  have "\<forall>d \<in> set (map (\<lambda>e. heap s1 ! e) (events s1)). json_ok (PDict (save_time d))"
  proof
    fix d
    assume "d \<in> set (map (\<lambda>e. heap s1 ! e) (events s1))"
    then have "d = event \<or> (\<exists>e \<in> set (events s). d = heap s ! e)"
      using old new by (auto simp: s1_def)
    then show "json_ok (PDict (save_time d))"
      using assms(2) json_ok_save_time json_ok_new_event unfolding event_def by blast
  qed
  then have saved: "save_events (map (\<lambda>e. heap s1 ! e) (events s1)) =
      (Inr (), JsonText (PList (map (\<lambda>d. PDict (save_time d))
         (map (\<lambda>e. heap s1 ! e) (events s1)))))"
    by (rule save_events_json)
  define s' where "s' = s1\<lparr>events_file := JsonText (PList (map (\<lambda>d. PDict (save_time d))
         (map (\<lambda>e. heap s1 ! e) (events s1))))\<rparr>"
  have run: "event_form clock nw True event_type event_details s = (Inr (), s')"
    using assms(1) saved
    by (simp add: event_form_def Let_def s'_def s1_def event_def)
  have ev: "events s' = length (heap s) # events s"
    by (simp add: s'_def s1_def)
  have hd: "heap s' ! (events s' ! 0) = event"
    by (simp add: s'_def s1_def)
  have keep: "\<forall>e \<in> set (events s). heap s' ! e = heap s ! e"
    using old by (simp add: s'_def)
  have written: "events_file s' =
      JsonText (PList (map (\<lambda>e. PDict (save_time (heap s' ! e))) (events s')))"
    by (simp add: s'_def comp_def)
  have ids: "event_ids s' = Some (PNum clock) # event_ids s"
    using keep by (simp add: event_ids_def ev) (simp add: s'_def s1_def event_def)
  have uniq: "distinct (event_ids s) \<and> Some (PNum clock) \<notin> set (event_ids s) \<longrightarrow>
      distinct (event_ids s')"
    by (simp add: ids)
  show ?thesis
    using run ev hd keep written uniq unfolding event_def by blast
qed

text \<open>
  The id is \<^verbatim>\<open>time.time()\<close> and nothing compares it with the ids of the store: when the
  clock reads what it read for the stored event, the store holds two events with one id.
\<close>

theorem event_id_unique_counterexample:
  "distinct (event_ids example_session)
   \<and> fst (event_form 1741944413 example_time True ''Incident Flag'' ''Valve stuck''
        example_session) = Inr ()
   \<and> event_ids (snd (event_form 1741944413 example_time True ''Incident Flag''
        ''Valve stuck'' example_session))
       = [Some (PNum 1741944413), Some (PNum 1741944413)]
   \<and> \<not> distinct (event_ids (snd (event_form 1741944413 example_time True
        ''Incident Flag'' ''Valve stuck'' example_session)))"
  by (simp add: event_form_def Let_def save_events_def json_dump_def save_time_def
      example_session_def example_event_def event_ids_def split_beta)

theorem event_form_appends_witness:
  "\<exists>s'. event_form 1741944500 example_time True ''Incident Flag'' ''Valve stuck''
        example_session = (Inr (), s')
    \<and> events s' = [1, 0]
    \<and> heap s' ! (events s' ! 0) =
        [(''id'', PNum 1741944500), (''type'', PStr ''Incident Flag''),
         (''details'', PStr ''Valve stuck''), (''time'', PDatetime example_time),
         (''status'', PStr ''Pending'')]
    \<and> heap s' ! 0 = example_event
    \<and> distinct (event_ids s')"
proof -
  have d: "''Valve stuck'' \<noteq> []"
    by simp
  have st: "\<forall>e \<in> set (events example_session).
      e < length (heap example_session) \<and> stored_event (heap example_session ! e)"
    using example_event_stored by (simp add: example_session_def)
  have ids: "distinct (event_ids example_session)
      \<and> Some (PNum 1741944500) \<notin> set (event_ids example_session)"
    by (simp add: event_ids_def example_session_def example_event_def)
  show ?thesis
    using event_form_appends [OF d st, of 1741944500 example_time "''Incident Flag''"] ids
    by (auto simp: example_session_def)
qed

end
